theory Spec2Isabelle
  imports Main "HOL-Library.Word"
begin

section \<open>Wire data\<close>

text \<open>
  Replica identifiers and boot counts are \<open>uint32\<close>; transaction identifiers are opaque
  byte strings. An \<open>Outcome\<close> message is a union of \<open>Commit\<close> and \<open>Abort\<close>; an abort is
  either \<open>Resubmit\<close> (no payload) or \<open>Rerun\<close> carrying the list of updates.
\<close>

type_synonym rmid = "32 word"
type_synonym txnid = "8 word list"
type_synonym addr = nat

datatype abort_body = Resubmit | Rerun "nat list"

datatype outcome_body = Commit "8 word list" | Abort abort_body

fun is_abort :: "outcome_body \<Rightarrow> bool" where
  "is_abort (Abort _) = True"
| "is_abort (Commit _) = False"

fun is_commit :: "outcome_body \<Rightarrow> bool" where
  "is_commit (Commit _) = True"
| "is_commit (Abort _) = False"

record allocation =
  rmId :: rmid
  actionIndices :: "16 word list"
  active :: "32 word"

datatype action_body =
    Read "8 word list"
  | Write "8 word list" "(8 word list \<times> 8 word list option) list"
  | Readwrite "8 word list" "8 word list" "(8 word list \<times> 8 word list option) list"
  | Create "8 word list" "8 word list" "(8 word list \<times> 8 word list option) list"
  | Roll "8 word list" "8 word list" "(8 word list \<times> 8 word list option) list"

record action =
  varId :: "8 word list"
  body :: action_body

record txn =
  txn_id :: txnid
  txn_retry :: bool
  txn_submitter :: rmid
  txn_submitterBootCount :: "32 word"
  txn_fInc :: "8 word"
  txn_topologyVersion :: "32 word"
  txn_actions :: "action list"
  txn_allocations :: "allocation list"

datatype message =
    SubmissionOutcome outcome_body
  | TwoBTxnVotes outcome_body
  | TxnGloballyComplete txnid
  | TxnSubmissionComplete txnid
  | TxnSubmissionAbort txnid
  | TxnSubmission txn

section \<open>The acceptor\<close>

subsection \<open>State\<close>

record twoBTxnVotesSender =
  msg :: message
  recipients :: "rmid list"
  submitterMsg :: message
  submitter :: rmid

datatype acc_state = ReceiveBallots | WriteToDisk | AwaitLocallyComplete | DeleteFromDisk

text \<open>The record written under \<open>BallotOutcomes[txnId]\<close>.\<close>

record acceptorState =
  st_txn :: txn
  st_outcome :: outcome_body
  st_sendToAll :: bool

text \<open>
  What an acceptor does to its collaborators, in order. \<open>DiskPut p f d\<close> is a scheduled
  write of \<open>d\<close>; \<open>p\<close> and \<open>f\<close> are the outcome pointer and flag its completion callback
  has captured.
\<close>

datatype effect =
    LogBallotAfterTLCs txnid rmid
  | DiskPut addr bool acceptorState
  | DiskDel txnid
  | AddSender twoBTxnVotesSender
  | RemoveSenderSync twoBTxnVotesSender
  | AcceptorFinished txnid
  | OneShotSender message "rmid list"

text \<open>
  The four embedded components share one record. Outcomes are held by pointer: \<open>heap\<close> is
  the store the pointers refer to, \<open>None\<close> is the nil pointer. The ballot accumulator is
  kept only as the transaction it holds; what it answers to a ballot is an input.
\<close>

record acceptor =
  txnId :: txnid
  currentState :: "acc_state option"
  ballotAccumulator_Txn :: txn
  outcome :: "addr option"
  outcomeOnDisk :: "addr option"
  sendToAll :: bool
  sendToAllOnDisk :: bool
  pendingTLC :: "rmid set"
  tlcsReceived :: "rmid set"
  tgcRecipients :: "rmid list"
  tscReceived :: bool
  twoBSender :: "twoBTxnVotesSender option"
  heap :: "addr \<Rightarrow> outcome_body"
  effects :: "effect list"

definition emit :: "effect \<Rightarrow> acceptor \<Rightarrow> acceptor" where
  "emit e a = a\<lparr>effects := effects a @ [e]\<rparr>"

subsection \<open>Construction\<close>

definition NewAcceptor :: "txnid \<Rightarrow> txn \<Rightarrow> (addr \<Rightarrow> outcome_body) \<Rightarrow> acceptor" where
  "NewAcceptor tid t h =
     \<lparr>txnId = tid, currentState = None, ballotAccumulator_Txn = t,
      outcome = None, outcomeOnDisk = None, sendToAll = False, sendToAllOnDisk = False,
      pendingTLC = {}, tlcsReceived = {}, tgcRecipients = [], tscReceived = False,
      twoBSender = None, heap = h, effects = []\<rparr>"

definition AcceptorFromData ::
  "txnid \<Rightarrow> txn \<Rightarrow> addr option \<Rightarrow> bool \<Rightarrow> (addr \<Rightarrow> outcome_body) \<Rightarrow> acceptor" where
  "AcceptorFromData tid t oc sta h =
     (NewAcceptor tid t h)
       \<lparr>outcome := oc, sendToAll := sta, sendToAllOnDisk := sta, outcomeOnDisk := oc\<rparr>"

subsection \<open>The 2B sender\<close>

text \<open>
  The submitter message is encoded into its own buffer from the outcome as it is at that
  moment; then an abort is rewritten in place to \<open>Resubmit\<close>; then the 2B message is
  encoded from the outcome as it is now. The rewrite goes through the pointer, so the
  store is returned too.
\<close>

definition newTwoBTxnVotesSender ::
  "(addr \<Rightarrow> outcome_body) \<Rightarrow> addr \<Rightarrow> txnid \<Rightarrow> rmid \<Rightarrow> rmid list
     \<Rightarrow> twoBTxnVotesSender \<times> (addr \<Rightarrow> outcome_body)" where
  "newTwoBTxnVotesSender h oc tid sub rcpts =
     (let sm = SubmissionOutcome (h oc);
          h' = (if is_abort (h oc) then h(oc := Abort Resubmit) else h);
          m = TwoBTxnVotes (h' oc)
      in (\<lparr>msg = m, recipients = rcpts, submitterMsg = sm, submitter = sub\<rparr>, h'))"

subsection \<open>Delete from disk\<close>

definition removeTwoBSender :: "acceptor \<Rightarrow> acceptor" where
  "removeTwoBSender a =
     (case twoBSender a of
        None \<Rightarrow> a
      | Some s \<Rightarrow> (emit (RemoveSenderSync s) a)\<lparr>twoBSender := None\<rparr>)"

definition adfd_start :: "acceptor \<Rightarrow> acceptor" where
  "adfd_start a = emit (DiskDel (txnId a)) (removeTwoBSender a)"

subsection \<open>Await locally complete\<close>

text \<open>
  \<open>maybeDelete\<close> calls \<open>nextState(nil)\<close> only when the current state is
  AwaitLocallyComplete, where it sets the state to DeleteFromDisk and starts it.
\<close>

definition maybeDelete :: "acceptor \<Rightarrow> acceptor" where
  "maybeDelete a =
     (if currentState a = Some AwaitLocallyComplete \<and> tscReceived a \<and> pendingTLC a = {}
      then adfd_start (a\<lparr>currentState := Some DeleteFromDisk\<rparr>)
      else a)"

text \<open>
  The loop over the allocations, with the three collections it fills:
  \<open>pendingTLC\<close>, \<open>tgcRecipients\<close>, \<open>twoBRecipients\<close>.
\<close>

primrec alc_allocs ::
  "bool \<Rightarrow> bool \<Rightarrow> rmid set \<Rightarrow> allocation list
     \<Rightarrow> rmid set \<times> rmid list \<times> rmid list \<Rightarrow> rmid set \<times> rmid list \<times> rmid list" where
  "alc_allocs sta aborted tlcs [] acc = acc"
| "alc_allocs sta aborted tlcs (alloc # rest) acc =
     (case acc of (pending, tgc, twoB) \<Rightarrow>
        let act = (active alloc \<noteq> 0);
            r = rmId alloc;
            twoB' = (if sta \<or> act then twoB @ [r] else twoB);
            pending' = (if (sta \<or> act) \<and> r \<notin> tlcs then insert r pending else pending);
            tgc' = (if \<not> aborted \<or> act then tgc @ [r] else tgc)
        in alc_allocs sta aborted tlcs rest (pending', tgc', twoB'))"

text \<open>\<open>None\<close> is the nil dereference of \<open>outcomeOnDisk\<close>.\<close>

definition aalc_start :: "acceptor \<Rightarrow> acceptor option" where
  "aalc_start a0 =
     (let a = removeTwoBSender a0 in
      case outcomeOnDisk a of
        None \<Rightarrow> None
      | Some p \<Rightarrow>
         (case alc_allocs (sendToAllOnDisk a) (is_abort (heap a p)) (tlcsReceived a)
                 (txn_allocations (ballotAccumulator_Txn a)) ({}, [], []) of
            (pending, tgc, twoB) \<Rightarrow>
              let a1 = a\<lparr>pendingTLC := pending, tgcRecipients := tgc\<rparr> in
              if pendingTLC a1 = {} \<and> tscReceived a1 then Some (maybeDelete a1)
              else
                (case newTwoBTxnVotesSender (heap a1) p (txnId a1)
                        (txn_submitter (ballotAccumulator_Txn a1)) twoB of
                   (s, h') \<Rightarrow>
                     Some (emit (AddSender s) (a1\<lparr>twoBSender := Some s, heap := h'\<rparr>)))))"

definition TxnLocallyCompleteReceived :: "acceptor \<Rightarrow> rmid \<Rightarrow> acceptor" where
  "TxnLocallyCompleteReceived a0 sender =
     (let a = a0\<lparr>tlcsReceived := insert sender (tlcsReceived a0)\<rparr> in
      if currentState a = Some AwaitLocallyComplete
      then maybeDelete (a\<lparr>pendingTLC := pendingTLC a - {sender}\<rparr>)
      else a)"

definition TxnSubmissionCompleteReceived :: "acceptor \<Rightarrow> rmid \<Rightarrow> acceptor" where
  "TxnSubmissionCompleteReceived a sender =
     (if \<not> tscReceived a then maybeDelete (a\<lparr>tscReceived := True\<rparr>) else a)"

subsection \<open>Write to disk\<close>

text \<open>\<open>None\<close> is the nil dereference of \<open>outcome\<close>.\<close>

definition awtd_start :: "acceptor \<Rightarrow> acceptor option" where
  "awtd_start a =
     (case outcome a of
        None \<Rightarrow> None
      | Some p \<Rightarrow>
          let sta = (sendToAll a \<or> is_commit (heap a p));
              a1 = a\<lparr>sendToAll := sta\<rparr>
          in Some (emit (DiskPut p sta
                      \<lparr>st_txn = ballotAccumulator_Txn a1, st_outcome = heap a1 p,
                       st_sendToAll = sendToAll a1\<rparr>) a1))"

subsection \<open>Transitions\<close>

definition start_component :: "acc_state \<Rightarrow> acceptor \<Rightarrow> acceptor option" where
  "start_component s a =
     (case s of
        ReceiveBallots \<Rightarrow> Some a
      | WriteToDisk \<Rightarrow> awtd_start a
      | AwaitLocallyComplete \<Rightarrow> aalc_start a
      | DeleteFromDisk \<Rightarrow> Some (adfd_start a))"

text \<open>
  With no requested state and no current state the switch matches nothing and the call of
  \<open>start\<close> on the nil state fails.
\<close>

definition nextState :: "acc_state option \<Rightarrow> acceptor \<Rightarrow> acceptor option" where
  "nextState requestedState a =
     (case requestedState of
        None \<Rightarrow>
          (case currentState a of
             Some ReceiveBallots \<Rightarrow>
               start_component WriteToDisk (a\<lparr>currentState := Some WriteToDisk\<rparr>)
           | Some WriteToDisk \<Rightarrow>
               start_component AwaitLocallyComplete
                 (a\<lparr>currentState := Some AwaitLocallyComplete\<rparr>)
           | Some AwaitLocallyComplete \<Rightarrow>
               start_component DeleteFromDisk (a\<lparr>currentState := Some DeleteFromDisk\<rparr>)
           | Some DeleteFromDisk \<Rightarrow> Some (a\<lparr>currentState := None\<rparr>)
           | None \<Rightarrow> None)
      | Some s \<Rightarrow> start_component s (a\<lparr>currentState := Some s\<rparr>))"

definition Start :: "acceptor \<Rightarrow> acceptor option" where
  "Start a =
     (if currentState a \<noteq> None then Some a
      else if outcomeOnDisk a = None
      then start_component ReceiveBallots (a\<lparr>currentState := Some ReceiveBallots\<rparr>)
      else start_component AwaitLocallyComplete
             (a\<lparr>currentState := Some AwaitLocallyComplete\<rparr>))"

text \<open>
  \<open>BallotAccepted\<close>: \<open>res\<close> is what the ballot accumulator returned for this ballot, and
  \<open>eq\<close> is the \<open>Equal\<close> of outcomes, which compares the new outcome with the held one
  (possibly nil).
\<close>

definition BallotAccepted ::
  "((addr \<Rightarrow> outcome_body) \<Rightarrow> addr \<Rightarrow> addr option \<Rightarrow> bool)
     \<Rightarrow> acceptor \<Rightarrow> rmid \<Rightarrow> addr option \<Rightarrow> acceptor option" where
  "BallotAccepted eq a0 instanceRMId res =
     (let a = (if currentState a0 = Some DeleteFromDisk
               then emit (LogBallotAfterTLCs (txnId a0) instanceRMId) a0 else a0)
      in case res of
           None \<Rightarrow> Some a
         | Some oc \<Rightarrow>
             if \<not> eq (heap a) oc (outcome a)
             then nextState (Some WriteToDisk) (a\<lparr>outcome := Some oc\<rparr>)
             else Some a)"

definition writeDone :: "acceptor \<Rightarrow> addr \<Rightarrow> bool \<Rightarrow> acceptor option" where
  "writeDone a oc sta =
     (if outcome a = Some oc \<and> currentState a = Some WriteToDisk
      then nextState None (a\<lparr>outcomeOnDisk := Some oc, sendToAllOnDisk := sta\<rparr>)
      else Some a)"

definition deletionDone :: "acceptor \<Rightarrow> acceptor option" where
  "deletionDone a =
     (if currentState a = Some DeleteFromDisk
      then (case nextState None a of
              None \<Rightarrow> None
            | Some a1 \<Rightarrow>
                Some (emit (OneShotSender (TxnGloballyComplete (txnId a1)) (tgcRecipients a1))
                        (emit (AcceptorFinished (txnId a1)) a1)))
      else Some a)"

subsection \<open>Runs\<close>

text \<open>
  The scheduled writes, oldest first, each with the arguments its completion will pass
  to \<open>writeDone\<close>.
\<close>

fun writes :: "effect list \<Rightarrow> (addr \<times> bool) list" where
  "writes [] = []"
| "writes (DiskPut p f d # es) = (p, f) # writes es"
| "writes (e # es) = writes es"

text \<open>
  The work items the executor can run for one acceptor. \<open>EvWriteDone k\<close> is the successful
  completion of the \<open>k\<close>-th scheduled write; a failed write posts nothing.
\<close>

datatype event =
    EvStart
  | EvBallot rmid "addr option"
  | EvWriteDone nat
  | EvTLC rmid
  | EvTSC rmid
  | EvDeletionDone

fun step ::
  "((addr \<Rightarrow> outcome_body) \<Rightarrow> addr \<Rightarrow> addr option \<Rightarrow> bool)
     \<Rightarrow> acceptor \<Rightarrow> event \<Rightarrow> acceptor option" where
  "step eq a EvStart = Start a"
| "step eq a (EvBallot r res) = BallotAccepted eq a r res"
| "step eq a (EvWriteDone k) =
     (if k < length (writes (effects a))
      then writeDone a (fst (writes (effects a) ! k)) (snd (writes (effects a) ! k))
      else Some a)"
| "step eq a (EvTLC r) = Some (TxnLocallyCompleteReceived a r)"
| "step eq a (EvTSC r) = Some (TxnSubmissionCompleteReceived a r)"
| "step eq a EvDeletionDone = deletionDone a"

fun run ::
  "((addr \<Rightarrow> outcome_body) \<Rightarrow> addr \<Rightarrow> addr option \<Rightarrow> bool)
     \<Rightarrow> acceptor \<Rightarrow> event list \<Rightarrow> acceptor option" where
  "run eq a [] = Some a"
| "run eq a (e # es) = (case step eq a e of None \<Rightarrow> None | Some a' \<Rightarrow> run eq a' es)"

subsection \<open>A worked example\<close>

text \<open>
  A transaction over three replicas, the first two active, and a store whose outcome 0 is
  an abort with an update and whose other outcomes are commits.
\<close>

definition example_txn :: txn where
  "example_txn =
     \<lparr>txn_id = [1], txn_retry = False, txn_submitter = 9, txn_submitterBootCount = 1,
      txn_fInc = 2, txn_topologyVersion = 1, txn_actions = [],
      txn_allocations =
        [\<lparr>rmId = 1, actionIndices = [0], active = 5\<rparr>,
         \<lparr>rmId = 2, actionIndices = [0], active = 3\<rparr>,
         \<lparr>rmId = 3, actionIndices = [0], active = 0\<rparr>]\<rparr>"

definition example_heap :: "addr \<Rightarrow> outcome_body" where
  "example_heap p = (if p = 0 then Abort (Rerun [7]) else Commit [])"

text \<open>
  The examples compare outcomes by pointer: an outcome equals the held one when it is
  the same object.
\<close>

definition samePointer :: "(addr \<Rightarrow> outcome_body) \<Rightarrow> addr \<Rightarrow> addr option \<Rightarrow> bool" where
  "samePointer h p q = (q = Some p)"

text \<open>A scheduled write is flagged when it records and passes on \<open>sendToAll = true\<close>.\<close>

fun flagged :: "effect \<Rightarrow> bool" where
  "flagged (DiskPut p f d) = (f \<and> st_sendToAll d)"
| "flagged e = True"

text \<open>
  \<open>grows c a a'\<close>: the effects of \<open>a'\<close> extend those of \<open>a\<close>, and under \<open>c\<close> every new
  write is flagged.
\<close>

definition grows :: "bool \<Rightarrow> acceptor \<Rightarrow> acceptor \<Rightarrow> bool" where
  "grows c a a' \<longleftrightarrow>
     (\<exists>new. effects a' = effects a @ new \<and> (c \<longrightarrow> (\<forall>e\<in>set new. flagged e)))"

text \<open>In WriteToDisk the newest scheduled write is the one for the outcome held.\<close>

definition newest :: "acceptor \<Rightarrow> bool" where
  "newest a \<longleftrightarrow>
     (currentState a = Some WriteToDisk \<longrightarrow>
        (\<exists>Y. outcome a = Some Y \<and> writes (effects a) \<noteq> []
            \<and> last (writes (effects a)) = (Y, sendToAll a)))"

subsection \<open>The invariant of the state machine\<close>

text \<open>
  Outside ReceiveBallots and WriteToDisk the outcome on disk is the outcome held, and in
  DeleteFromDisk nothing is pending.
\<close>

definition inv :: "acceptor \<Rightarrow> bool" where
  "inv a \<longleftrightarrow>
     (currentState a \<noteq> Some ReceiveBallots \<and> currentState a \<noteq> Some WriteToDisk
        \<longrightarrow> outcomeOnDisk a = outcome a)
     \<and> (currentState a = Some DeleteFromDisk \<longrightarrow> pendingTLC a = {} \<and> tscReceived a)"

section \<open>The transaction submitter\<close>

subsection \<open>Client transactions and the topology\<close>

datatype clientAction_body =
    ClientRead "8 word list"
  | ClientWrite "8 word list" "8 word list list"
  | ClientReadwrite "8 word list" "8 word list" "8 word list list"
  | ClientCreate "8 word list" "8 word list list"
  | ClientRoll "8 word list" "8 word list" "8 word list list"

record clientAction =
  client_varId :: "8 word list"
  client_body :: clientAction_body

record clientTxn =
  ctxn_id :: txnid
  ctxn_retry :: bool
  ctxn_actions :: "clientAction list"

text \<open>The fields of the topology that the submitter reads.\<close>

record topology =
  AllRMs :: "rmid list"
  FInc :: "8 word"
  TwoFInc :: nat
  MaxRMCount :: nat
  Version :: "32 word"

subsection \<open>Collaborators\<close>

text \<open>
  The consistent-hash cache with its resolver and random source (state \<open>'h\<close>), the
  combination picker (state \<open>'p\<close>), the outcome accumulator (state \<open>'acc\<close>), the
  acceptors of a transaction and the comparison of a topology with the blank one belong
  to other packages and are parameters. So is \<open>translateActions\<close>, which works on the
  cache and the picker throughout: it yields the new cache and either an error or the
  translated actions, the map from replicas to action indices and the filled picker;
  \<open>None\<close> is a panic.
\<close>

record ('h, 'p, 'acc) collaborators =
  equalBlank :: "topology \<Rightarrow> bool"
  setResolver :: "'h \<Rightarrow> topology \<Rightarrow> 'h"
  newCombinationPicker :: "nat \<Rightarrow> rmid set \<Rightarrow> 'p"
  translateActions ::
    "'h \<Rightarrow> topology \<Rightarrow> rmid \<Rightarrow> 'p \<Rightarrow> clientTxn
       \<Rightarrow> ('h \<times> (string + action list \<times> (rmid \<rightharpoonup> int list) \<times> 'p)) option"
  pickerChoose :: "'p \<Rightarrow> string + rmid list \<times> rmid list"
  getAcceptorsFromTxn :: "txn \<Rightarrow> rmid list"
  newOutcomeAccumulator :: "nat \<Rightarrow> rmid list \<Rightarrow> 'acc"
  ballotOutcomeReceived :: "'acc \<Rightarrow> rmid \<Rightarrow> outcome_body \<Rightarrow> 'acc \<times> outcome_body option"

subsection \<open>State\<close>

text \<open>
  What the submitter does to the connection manager and to the continuations, in order.
  A continuation is known by a number; calling it is recorded.
\<close>

datatype sts_effect =
    AddRepeatingSender message "rmid list"
  | AddRepeatingSenderAfter int message "rmid list"
  | RemoveSenderAsync message "rmid list"
  | NewOneShotSender message "rmid list"
  | Continuation nat txnid "outcome_body option"

text \<open>What the shutdown closure of a transaction has captured.\<close>

record shutdownFun =
  sf_txnId :: txnid
  sf_senderMsg :: message
  sf_activeRMs :: "rmid list"
  sf_acceptors :: "rmid list"
  sf_retry :: bool
  sf_continuation :: nat

text \<open>
  What the outcome consumer of a transaction has captured: the accumulator, the key of
  its shutdown hook, the shutdown closure and the continuation.
\<close>

record 'acc consumer =
  c_outcomeAccumulator :: 'acc
  c_shutdownFunPtr :: nat
  c_shutdownFun :: shutdownFun
  c_continuation :: nat

text \<open>
  Shutdown hooks are keyed by the address of the closure; \<open>nextPtr\<close> is the next fresh
  address. A nil map of connections and a nil list of buffered submissions behave as the
  empty ones. A buffered submission is the triple of arguments its closure has captured.
\<close>

record ('h, 'acc) submitter =
  sts_rmId :: rmid
  sts_bootCount :: "32 word"
  disabledHashCodes :: "rmid set"
  connections :: "rmid \<rightharpoonup> 32 word"
  outcomeConsumers :: "txnid \<rightharpoonup> 'acc consumer"
  onShutdown :: "nat \<rightharpoonup> shutdownFun"
  nextPtr :: nat
  hashCache :: 'h
  sts_topology :: topology
  bufferedSubmissions :: "(clientTxn \<times> nat \<times> int) list"
  sts_effects :: "sts_effect list"

definition sts_emit :: "sts_effect \<Rightarrow> ('h, 'acc) submitter \<Rightarrow> ('h, 'acc) submitter" where
  "sts_emit e s = s\<lparr>sts_effects := sts_effects s @ [e]\<rparr>"

subsection \<open>Allocations\<close>

text \<open>
  \<open>setAllocations\<close> fails (a nil dereference) for a replica without action indices and,
  when active, for a replica without a connection. The sort is in place, so the map
  holds the sorted list afterwards. An index is written as \<open>uint16(v)\<close>. A position
  beyond the end of the list does not arise from \<open>clientToServerTxn\<close>, which sizes the
  list for the replicas chosen; it is taken as a failure as well.
\<close>

fun setAllocations ::
  "(rmid \<rightharpoonup> 32 word) \<Rightarrow> nat \<Rightarrow> (rmid \<rightharpoonup> int list) \<Rightarrow> allocation list \<Rightarrow> bool \<Rightarrow> rmid list
     \<Rightarrow> ((rmid \<rightharpoonup> int list) \<times> allocation list) option" where
  "setAllocations conns allocIdx m allocations act [] = Some (m, allocations)"
| "setAllocations conns allocIdx m allocations act (r # rmIds) =
     (case m r of
        None \<Rightarrow> None
      | Some unsorted \<Rightarrow>
          let actionIdx = sort unsorted in
          if length allocations \<le> allocIdx then None
          else (case (if act then conns r else Some 0) of
                  None \<Rightarrow> None
                | Some bc \<Rightarrow>
                    setAllocations conns (Suc allocIdx) (m(r \<mapsto> actionIdx))
                      (allocations[allocIdx :=
                         \<lparr>rmId = r, actionIndices = map word_of_int actionIdx, active = bc\<rparr>])
                      act rmIds))"

definition clientToServerTxn ::
  "('h, 'p, 'acc) collaborators \<Rightarrow> ('h, 'acc) submitter \<Rightarrow> clientTxn
     \<Rightarrow> (('h, 'acc) submitter \<times> (string + txn \<times> rmid list \<times> rmid list)) option" where
  "clientToServerTxn E s c =
     (let picker = newCombinationPicker E (unat (FInc (sts_topology s))) (disabledHashCodes s) in
      case translateActions E (hashCache s) (sts_topology s) (sts_rmId s) picker c of
        None \<Rightarrow> None
      | Some (h, Inl err) \<Rightarrow>
          Some (s\<lparr>hashCache := h\<rparr>, Inl (''Error translating actions: '' @ err))
      | Some (h, Inr (acts, rmIdToActionIndices, picker')) \<Rightarrow>
          (case pickerChoose E picker' of
             Inl err \<Rightarrow> Some (s\<lparr>hashCache := h\<rparr>, Inl err)
           | Inr (activeRMs, passiveRMs) \<Rightarrow>
               (case setAllocations (connections s) 0 rmIdToActionIndices
                       (replicate (length activeRMs + length passiveRMs)
                          \<lparr>rmId = 0, actionIndices = [], active = 0\<rparr>) True activeRMs of
                  None \<Rightarrow> None
                | Some (m1, allocs1) \<Rightarrow>
                    (case setAllocations (connections s) (length activeRMs) m1 allocs1 False
                            passiveRMs of
                       None \<Rightarrow> None
                     | Some (m2, allocs2) \<Rightarrow>
                         Some (s\<lparr>hashCache := h\<rparr>,
                               Inr (\<lparr>txn_id = ctxn_id c, txn_retry = ctxn_retry c,
                                     txn_submitter = sts_rmId s,
                                     txn_submitterBootCount = sts_bootCount s,
                                     txn_fInc = FInc (sts_topology s),
                                     txn_topologyVersion = Version (sts_topology s),
                                     txn_actions = acts, txn_allocations = allocs2\<rparr>,
                                    activeRMs, passiveRMs))))))"

subsection \<open>Submission\<close>

definition SubmitTransaction ::
  "('h, 'p, 'acc) collaborators \<Rightarrow> ('h, 'acc) submitter \<Rightarrow> txn \<Rightarrow> rmid list \<Rightarrow> nat \<Rightarrow> int
     \<Rightarrow> ('h, 'acc) submitter" where
  "SubmitTransaction E s0 txnCap activeRMs continuation delay =
     (let m = TxnSubmission txnCap;
          tid = txn_id txnCap;
          s1 = (if delay = 0 then sts_emit (AddRepeatingSender m activeRMs) s0
                else sts_emit (AddRepeatingSenderAfter delay m activeRMs) s0);
          acceptors = getAcceptorsFromTxn E txnCap;
          shutdownFun = \<lparr>sf_txnId = tid, sf_senderMsg = m, sf_activeRMs = activeRMs,
                         sf_acceptors = acceptors, sf_retry = txn_retry txnCap,
                         sf_continuation = continuation\<rparr>;
          ptr = nextPtr s1;
          s2 = s1\<lparr>onShutdown := (onShutdown s1)(ptr \<mapsto> shutdownFun), nextPtr := Suc ptr\<rparr>;
          consumer = \<lparr>c_outcomeAccumulator =
                        newOutcomeAccumulator E (unat (txn_fInc txnCap)) acceptors,
                      c_shutdownFunPtr = ptr, c_shutdownFun = shutdownFun,
                      c_continuation = continuation\<rparr>
      in s2\<lparr>outcomeConsumers := (outcomeConsumers s2)(tid \<mapsto> consumer)\<rparr>)"

text \<open>The shutdown closure, called with the flag \<open>shutdown\<close>.\<close>

definition call_shutdownFun ::
  "shutdownFun \<Rightarrow> bool \<Rightarrow> ('h, 'acc) submitter \<Rightarrow> ('h, 'acc) submitter" where
  "call_shutdownFun f shutdown s0 =
     (let s1 = s0\<lparr>outcomeConsumers := (outcomeConsumers s0)(sf_txnId f := None)\<rparr>;
          s2 = sts_emit (RemoveSenderAsync (sf_senderMsg f) (sf_activeRMs f)) s1;
          s3 = sts_emit (NewOneShotSender (TxnSubmissionComplete (sf_txnId f)) (sf_acceptors f)) s2
      in if shutdown
         then (let s4 = (if sf_retry f
                         then sts_emit (NewOneShotSender (TxnSubmissionAbort (sf_txnId f))
                                          (sf_activeRMs f)) s3
                         else s3)
               in sts_emit (Continuation (sf_continuation f) (sf_txnId f) None) s4)
         else s3)"

text \<open>
  The outcome consumer, called with the sender, the transaction identifier it was looked
  up under and the outcome. The accumulator is changed in place.
\<close>

definition call_consumer ::
  "('h, 'p, 'acc) collaborators \<Rightarrow> 'acc consumer \<Rightarrow> rmid \<Rightarrow> txnid \<Rightarrow> outcome_body
     \<Rightarrow> ('h, 'acc) submitter \<Rightarrow> ('h, 'acc) submitter" where
  "call_consumer E c sender tid oc s0 =
     (case ballotOutcomeReceived E (c_outcomeAccumulator c) sender oc of
        (acc, res) \<Rightarrow>
          let s1 = s0\<lparr>outcomeConsumers :=
                        (outcomeConsumers s0)(tid \<mapsto> c\<lparr>c_outcomeAccumulator := acc\<rparr>)\<rparr>
          in case res of
               None \<Rightarrow> s1
             | Some decided \<Rightarrow>
                 let s2 = s1\<lparr>onShutdown := (onShutdown s1)(c_shutdownFunPtr c := None)\<rparr>;
                     s3 = call_shutdownFun (c_shutdownFun c) False s2
                 in sts_emit (Continuation (c_continuation c) tid (Some decided)) s3)"

definition SubmissionOutcomeReceived ::
  "('h, 'p, 'acc) collaborators \<Rightarrow> ('h, 'acc) submitter \<Rightarrow> rmid \<Rightarrow> txnid \<Rightarrow> outcome_body
     \<Rightarrow> ('h, 'acc) submitter" where
  "SubmissionOutcomeReceived E s sender tid oc =
     (case outcomeConsumers s tid of
        Some c \<Rightarrow> call_consumer E c sender tid oc s
      | None \<Rightarrow> sts_emit (NewOneShotSender (TxnSubmissionComplete tid) [sender]) s)"





text \<open>
  \<open>allocated conns m act r al\<close>: the allocation \<open>al\<close> is the one written for replica \<open>r\<close>:
  it names \<open>r\<close>, its action indices are those of \<open>r\<close> in \<open>m\<close>, sorted ascending and each
  written as \<open>uint16\<close>, and its flag is the boot count of the connection to \<open>r\<close> when
  active and zero when passive.
\<close>

definition allocated ::
  "(rmid \<rightharpoonup> 32 word) \<Rightarrow> (rmid \<rightharpoonup> int list) \<Rightarrow> bool \<Rightarrow> rmid \<Rightarrow> allocation \<Rightarrow> bool" where
  "allocated conns m act r al \<longleftrightarrow>
     rmId al = r
     \<and> (\<exists>l. m r = Some l \<and> actionIndices al = map word_of_int (sort l))
     \<and> (if act then conns r = Some (active al) else active al = 0)"

subsection \<open>Deliveries of outcomes\<close>

text \<open>
  Outcomes delivered one after the other for one transaction, and the accumulator fed
  with outcomes none of which decides (\<open>None\<close> once one does).
\<close>

fun deliverAll ::
  "('h, 'p, 'acc) collaborators \<Rightarrow> ('h, 'acc) submitter \<Rightarrow> txnid
     \<Rightarrow> (rmid \<times> outcome_body) list \<Rightarrow> ('h, 'acc) submitter" where
  "deliverAll E s tid [] = s"
| "deliverAll E s tid ((sender, oc) # ds) =
     deliverAll E (SubmissionOutcomeReceived E s sender tid oc) tid ds"

fun undecided ::
  "('h, 'p, 'acc) collaborators \<Rightarrow> 'acc \<Rightarrow> (rmid \<times> outcome_body) list \<Rightarrow> 'acc option" where
  "undecided E acc [] = Some acc"
| "undecided E acc ((sender, oc) # ds) =
     (case ballotOutcomeReceived E acc sender oc of
        (acc', None) \<Rightarrow> undecided E acc' ds
      | (acc', Some decided) \<Rightarrow> None)"

subsection \<open>The outcome accumulator\<close>

text \<open>
  Modelled from the spec: the outcome accumulator of the submitter (the paxos package's
  \<open>OutcomeAccumulator\<close> is not among the sources). The spec says of it: when \<open>FInc\<close>
  acceptors agree on an outcome, deliver it; the acceptors are those named in the
  transaction. It keeps the latest outcome of each such acceptor and reports an outcome
  when the acceptors whose latest outcome is that one number \<open>FInc\<close> or more.
\<close>

record outcomeAccumulator =
  oa_fInc :: nat
  oa_acceptors :: "rmid list"
  oa_outcomes :: "rmid \<rightharpoonup> outcome_body"

text \<open>Modelled from the spec: a new accumulator has heard from no acceptor.\<close>

definition NewOutcomeAccumulator :: "nat \<Rightarrow> rmid list \<Rightarrow> outcomeAccumulator" where
  "NewOutcomeAccumulator f accs = \<lparr>oa_fInc = f, oa_acceptors = accs, oa_outcomes = Map.empty\<rparr>"

text \<open>
  Modelled from the spec: an outcome from an acceptor named in the transaction replaces
  the one kept for it, and is reported once \<open>FInc\<close> of the acceptors agree on it; an
  outcome from anyone else is not counted.
\<close>

definition BallotOutcomeReceived ::
  "outcomeAccumulator \<Rightarrow> rmid \<Rightarrow> outcome_body \<Rightarrow> outcomeAccumulator \<times> outcome_body option" where
  "BallotOutcomeReceived acc sender oc =
     (if sender \<in> set (oa_acceptors acc)
      then (let m = (oa_outcomes acc)(sender \<mapsto> oc)
            in (acc\<lparr>oa_outcomes := m\<rparr>,
                if oa_fInc acc \<le> length (filter (\<lambda>r. m r = Some oc) (remdups (oa_acceptors acc)))
                then Some oc else None))
      else (acc, None))"

subsection \<open>Sample collaborators\<close>

text \<open>
  For the worked examples: the blank topology is the one without replicas; the cache
  records the transactions translated; replica 1 is active and replica 2 passive; the
  acceptors are the replicas of the allocations; the accumulator is the one above.
\<close>

definition example_collaborators :: "(clientTxn list, unit, outcomeAccumulator) collaborators" where
  "example_collaborators =
     \<lparr>equalBlank = (\<lambda>t. AllRMs t = []),
      setResolver = (\<lambda>h t. h),
      newCombinationPicker = (\<lambda>f d. ()),
      translateActions = (\<lambda>h t r p c. Some (h @ [c], Inr ([], [1 \<mapsto> [2, 0, 1], 2 \<mapsto> [0]], ()))),
      pickerChoose = (\<lambda>p. Inr ([1], [2])),
      getAcceptorsFromTxn = (\<lambda>t. map rmId (txn_allocations t)),
      newOutcomeAccumulator = NewOutcomeAccumulator,
      ballotOutcomeReceived = BallotOutcomeReceived\<rparr>"

definition example_submitter :: "(clientTxn list, outcomeAccumulator) submitter" where
  "example_submitter =
     \<lparr>sts_rmId = 9, sts_bootCount = 1, disabledHashCodes = {},
      connections = [1 \<mapsto> 5, 2 \<mapsto> 6], outcomeConsumers = Map.empty,
      onShutdown = Map.empty, nextPtr = 0, hashCache = [],
      sts_topology = \<lparr>AllRMs = [], FInc = 0, TwoFInc = 0, MaxRMCount = 0, Version = 0\<rparr>,
      bufferedSubmissions = [], sts_effects = []\<rparr>"

definition example_topology :: topology where
  "example_topology = \<lparr>AllRMs = [1, 2, 3], FInc = 2, TwoFInc = 3, MaxRMCount = 5, Version = 1\<rparr>"

section \<open>Properties of the acceptor\<close>

subsection \<open>What each operation leaves alone\<close>

lemma emit_fields [simp]:
  "txnId (emit e a) = txnId a" "currentState (emit e a) = currentState a"
  "ballotAccumulator_Txn (emit e a) = ballotAccumulator_Txn a"
  "outcome (emit e a) = outcome a" "outcomeOnDisk (emit e a) = outcomeOnDisk a"
  "sendToAll (emit e a) = sendToAll a" "sendToAllOnDisk (emit e a) = sendToAllOnDisk a"
  "pendingTLC (emit e a) = pendingTLC a" "tlcsReceived (emit e a) = tlcsReceived a"
  "tgcRecipients (emit e a) = tgcRecipients a" "tscReceived (emit e a) = tscReceived a"
  "twoBSender (emit e a) = twoBSender a" "heap (emit e a) = heap a"
  "effects (emit e a) = effects a @ [e]"
  by (simp_all add: emit_def)

lemma removeTwoBSender_fields [simp]:
  "txnId (removeTwoBSender a) = txnId a"
  "currentState (removeTwoBSender a) = currentState a"
  "ballotAccumulator_Txn (removeTwoBSender a) = ballotAccumulator_Txn a"
  "outcome (removeTwoBSender a) = outcome a"
  "outcomeOnDisk (removeTwoBSender a) = outcomeOnDisk a"
  "sendToAll (removeTwoBSender a) = sendToAll a"
  "sendToAllOnDisk (removeTwoBSender a) = sendToAllOnDisk a"
  "pendingTLC (removeTwoBSender a) = pendingTLC a"
  "tlcsReceived (removeTwoBSender a) = tlcsReceived a"
  "tgcRecipients (removeTwoBSender a) = tgcRecipients a"
  "tscReceived (removeTwoBSender a) = tscReceived a"
  "twoBSender (removeTwoBSender a) = None"
  "heap (removeTwoBSender a) = heap a"
  by (simp_all add: removeTwoBSender_def split: option.split)

lemma adfd_start_fields [simp]:
  "txnId (adfd_start a) = txnId a"
  "currentState (adfd_start a) = currentState a"
  "ballotAccumulator_Txn (adfd_start a) = ballotAccumulator_Txn a"
  "outcome (adfd_start a) = outcome a"
  "outcomeOnDisk (adfd_start a) = outcomeOnDisk a"
  "sendToAll (adfd_start a) = sendToAll a"
  "sendToAllOnDisk (adfd_start a) = sendToAllOnDisk a"
  "pendingTLC (adfd_start a) = pendingTLC a"
  "tlcsReceived (adfd_start a) = tlcsReceived a"
  "tgcRecipients (adfd_start a) = tgcRecipients a"
  "tscReceived (adfd_start a) = tscReceived a"
  "twoBSender (adfd_start a) = None"
  "heap (adfd_start a) = heap a"
  by (simp_all add: adfd_start_def)

lemma maybeDelete_fields [simp]:
  "txnId (maybeDelete a) = txnId a"
  "ballotAccumulator_Txn (maybeDelete a) = ballotAccumulator_Txn a"
  "outcome (maybeDelete a) = outcome a"
  "outcomeOnDisk (maybeDelete a) = outcomeOnDisk a"
  "sendToAll (maybeDelete a) = sendToAll a"
  "sendToAllOnDisk (maybeDelete a) = sendToAllOnDisk a"
  "pendingTLC (maybeDelete a) = pendingTLC a"
  "tlcsReceived (maybeDelete a) = tlcsReceived a"
  "tgcRecipients (maybeDelete a) = tgcRecipients a"
  "tscReceived (maybeDelete a) = tscReceived a"
  "heap (maybeDelete a) = heap a"
  by (simp_all add: maybeDelete_def)

lemma maybeDelete_state:
  "currentState (maybeDelete a) =
     (if currentState a = Some AwaitLocallyComplete \<and> tscReceived a \<and> pendingTLC a = {}
      then Some DeleteFromDisk else currentState a)"
  by (simp add: maybeDelete_def)

text \<open>The transition of \<open>maybeDelete\<close> is \<open>nextState(nil)\<close>.\<close>

lemma maybeDelete_nextState:
  "Some (maybeDelete a) =
     (if currentState a = Some AwaitLocallyComplete \<and> tscReceived a \<and> pendingTLC a = {}
      then nextState None a else Some a)"
  by (simp add: maybeDelete_def nextState_def start_component_def)

lemma aalc_start_props:
  assumes "aalc_start a = Some a'"
  shows "outcome a' = outcome a \<and> outcomeOnDisk a' = outcomeOnDisk a
    \<and> sendToAll a' = sendToAll a \<and> sendToAllOnDisk a' = sendToAllOnDisk a
    \<and> tscReceived a' = tscReceived a \<and> tlcsReceived a' = tlcsReceived a
    \<and> txnId a' = txnId a \<and> ballotAccumulator_Txn a' = ballotAccumulator_Txn a
    \<and> (currentState a' = currentState a
        \<or> (currentState a = Some AwaitLocallyComplete
            \<and> currentState a' = Some DeleteFromDisk \<and> pendingTLC a' = {} \<and> tscReceived a'))"
  using assms
  by (auto simp: aalc_start_def Let_def maybeDelete_state
      split: option.splits prod.splits if_splits)

lemma aalc_start_total: "outcomeOnDisk a = Some p \<Longrightarrow> \<exists>a'. aalc_start a = Some a'"
  by (auto simp: aalc_start_def Let_def split: option.splits prod.splits if_splits)

lemma awtd_start_props:
  assumes "awtd_start a = Some a'"
  shows "outcome a' = outcome a \<and> outcomeOnDisk a' = outcomeOnDisk a
    \<and> currentState a' = currentState a \<and> pendingTLC a' = pendingTLC a
    \<and> tscReceived a' = tscReceived a \<and> sendToAllOnDisk a' = sendToAllOnDisk a
    \<and> (sendToAll a \<longrightarrow> sendToAll a')"
  using assms
  by (auto simp: awtd_start_def Let_def split: option.splits)

lemma inv_maybeDelete: "inv a \<Longrightarrow> inv (maybeDelete a)"
  by (auto simp: inv_def maybeDelete_state)

lemma inv_Start: "inv a \<Longrightarrow> Start a = Some a' \<Longrightarrow> inv a'"
  by (auto simp: Start_def start_component_def inv_def split: if_splits
      dest!: aalc_start_props)

lemma inv_BallotAccepted: "inv a \<Longrightarrow> BallotAccepted eq a r res = Some a' \<Longrightarrow> inv a'"
  by (auto simp: BallotAccepted_def Let_def nextState_def start_component_def inv_def
      split: if_splits option.splits dest!: awtd_start_props)

lemma inv_writeDone: "inv a \<Longrightarrow> writeDone a p f = Some a' \<Longrightarrow> inv a'"
  by (auto simp: writeDone_def nextState_def start_component_def inv_def
      split: if_splits dest!: aalc_start_props)

lemma inv_TLC: "inv a \<Longrightarrow> inv (TxnLocallyCompleteReceived a r)"
  by (auto simp: TxnLocallyCompleteReceived_def Let_def inv_def maybeDelete_state)

lemma inv_TSC: "inv a \<Longrightarrow> inv (TxnSubmissionCompleteReceived a r)"
  by (auto simp: TxnSubmissionCompleteReceived_def inv_def maybeDelete_state)

lemma inv_deletionDone: "inv a \<Longrightarrow> deletionDone a = Some a' \<Longrightarrow> inv a'"
  by (auto simp: deletionDone_def nextState_def inv_def split: if_splits option.splits)

lemma inv_step: "inv a \<Longrightarrow> step eq a e = Some a' \<Longrightarrow> inv a'"
  by (cases e)
     (auto dest: inv_Start inv_BallotAccepted inv_writeDone inv_deletionDone
        simp: inv_TLC inv_TSC split: if_splits)

lemma inv_run: "inv a \<Longrightarrow> run eq a es = Some a' \<Longrightarrow> inv a'"
  by (induction es arbitrary: a) (auto split: option.splits dest: inv_step)

lemma Start_total: "\<exists>a'. Start a = Some a'"
  using aalc_start_total [of "a\<lparr>currentState := Some AwaitLocallyComplete\<rparr>"]
  by (auto simp: Start_def start_component_def)

lemma BallotAccepted_total: "\<exists>a'. BallotAccepted eq a r res = Some a'"
  by (auto simp: BallotAccepted_def Let_def nextState_def start_component_def awtd_start_def
      split: option.splits)

lemma writeDone_total: "\<exists>a'. writeDone a p f = Some a'"
  using aalc_start_total [of "a\<lparr>outcomeOnDisk := Some p, sendToAllOnDisk := f,
      currentState := Some AwaitLocallyComplete\<rparr>" p]
  by (auto simp: writeDone_def nextState_def start_component_def)

lemma deletionDone_total: "\<exists>a'. deletionDone a = Some a'"
  by (auto simp: deletionDone_def nextState_def)

lemma step_total: "\<exists>a'. step eq a e = Some a'"
  by (cases e) (simp_all add: Start_total BallotAccepted_total writeDone_total deletionDone_total)

lemma run_total: "\<exists>a'. run eq a es = Some a'"
proof (induction es arbitrary: a)
  case Nil
  show ?case by simp
next
  case (Cons e es)
  obtain a1 where "step eq a e = Some a1" using step_total by blast
  with Cons show ?case by simp
qed


subsection \<open>The recipients computed on entering AwaitLocallyComplete\<close>

lemma alc_allocs_result:
  "alc_allocs sta ab tlcs allocs (pending, tgc, twoB) =
     (pending \<union> {r \<in> set (map rmId (filter (\<lambda>al. sta \<or> active al \<noteq> 0) allocs)). r \<notin> tlcs},
      tgc @ map rmId (filter (\<lambda>al. \<not> ab \<or> active al \<noteq> 0) allocs),
      twoB @ map rmId (filter (\<lambda>al. sta \<or> active al \<noteq> 0) allocs))"
  by (induction allocs arbitrary: pending tgc twoB) (auto simp: Let_def)

lemma not_abort_commit: "(\<not> is_abort b) = is_commit b"
  by (cases b) simp_all

lemma maybeDelete_twoBSender: "twoBSender a = None \<Longrightarrow> twoBSender (maybeDelete a) = None"
  by (simp add: maybeDelete_def)

lemma aalc_start_unfold:
  assumes "outcomeOnDisk a = Some p"
  shows "aalc_start a =
    (let twoB = map rmId (filter (\<lambda>al. sendToAllOnDisk a \<or> active al \<noteq> 0)
                   (txn_allocations (ballotAccumulator_Txn a)));
         a1 = (removeTwoBSender a)
                \<lparr>pendingTLC := {r \<in> set twoB. r \<notin> tlcsReceived a},
                 tgcRecipients := map rmId (filter (\<lambda>al. is_commit (heap a p) \<or> active al \<noteq> 0)
                   (txn_allocations (ballotAccumulator_Txn a)))\<rparr>
     in if {r \<in> set twoB. r \<notin> tlcsReceived a} = {} \<and> tscReceived a
        then Some (maybeDelete a1)
        else Some (emit (AddSender (fst (newTwoBTxnVotesSender (heap a) p (txnId a)
                            (txn_submitter (ballotAccumulator_Txn a)) twoB)))
                (a1\<lparr>twoBSender := Some (fst (newTwoBTxnVotesSender (heap a) p (txnId a)
                            (txn_submitter (ballotAccumulator_Txn a)) twoB)),
                    heap := snd (newTwoBTxnVotesSender (heap a) p (txnId a)
                            (txn_submitter (ballotAccumulator_Txn a)) twoB)\<rparr>)))"
  using assms
  by (auto simp: aalc_start_def Let_def alc_allocs_result not_abort_commit split: prod.split)

subsection \<open>The guard of a completed write\<close>

lemma writeDone_cases:
  "(outcome b = Some Z \<and> currentState b = Some WriteToDisk \<longrightarrow>
      writeDone b Z h =
        aalc_start (b\<lparr>outcomeOnDisk := Some Z, sendToAllOnDisk := h,
                      currentState := Some AwaitLocallyComplete\<rparr>)
      \<and> (\<exists>b'. writeDone b Z h = Some b' \<and> b' \<noteq> b
            \<and> outcomeOnDisk b' = Some Z \<and> sendToAllOnDisk b' = h \<and> outcome b' = Some Z
            \<and> (currentState b' = Some AwaitLocallyComplete
                \<or> currentState b' = Some DeleteFromDisk
                   \<and> pendingTLC b' = {} \<and> tscReceived b')))
   \<and> (\<not> (outcome b = Some Z \<and> currentState b = Some WriteToDisk) \<longrightarrow>
        writeDone b Z h = Some b)"
proof -
  have adv: "writeDone b Z h =
        aalc_start (b\<lparr>outcomeOnDisk := Some Z, sendToAllOnDisk := h,
                      currentState := Some AwaitLocallyComplete\<rparr>)
      \<and> (\<exists>b'. writeDone b Z h = Some b' \<and> b' \<noteq> b
            \<and> outcomeOnDisk b' = Some Z \<and> sendToAllOnDisk b' = h \<and> outcome b' = Some Z
            \<and> (currentState b' = Some AwaitLocallyComplete
                \<or> currentState b' = Some DeleteFromDisk
                   \<and> pendingTLC b' = {} \<and> tscReceived b'))"
    if g: "outcome b = Some Z" "currentState b = Some WriteToDisk"
  proof -
    let ?b = "b\<lparr>outcomeOnDisk := Some Z, sendToAllOnDisk := h,
                      currentState := Some AwaitLocallyComplete\<rparr>"
    have e: "writeDone b Z h = aalc_start ?b"
      using g by (simp add: writeDone_def nextState_def start_component_def)
    obtain b' where b': "aalc_start ?b = Some b'"
      using aalc_start_total [of ?b Z] by auto
    from aalc_start_props [OF b'] g e b' show ?thesis by auto
  qed
  have drop: "writeDone b Z h = Some b"
    if "\<not> (outcome b = Some Z \<and> currentState b = Some WriteToDisk)"
    using that by (auto simp: writeDone_def)
  from adv drop show ?thesis by blast
qed

subsection \<open>Scheduled writes along a run\<close>

lemma writes_append: "writes (xs @ ys) = writes xs @ writes ys"
  by (induction xs rule: writes.induct) simp_all

lemma flagged_writes: "\<forall>e\<in>set new. flagged e \<Longrightarrow> (p, f) \<in> set (writes new) \<Longrightarrow> f"
  by (induction new rule: writes.induct) auto

lemma grows_refl: "grows c a a"
  by (simp add: grows_def)

lemma grows_trans: "grows c a b \<Longrightarrow> grows c' b d \<Longrightarrow> (c \<longrightarrow> c') \<Longrightarrow> grows c a d"
  by (auto simp: grows_def)

lemma grows_emit: "c \<longrightarrow> flagged e \<Longrightarrow> grows c a b \<Longrightarrow> grows c a (emit e b)"
  by (auto simp: grows_def)

lemma grows_removeTwoBSender: "grows c a b \<Longrightarrow> grows c a (removeTwoBSender b)"
  by (auto simp: grows_def removeTwoBSender_def emit_def split: option.splits)

lemma grows_adfd_start: "grows c a b \<Longrightarrow> grows c a (adfd_start b)"
  by (simp add: adfd_start_def grows_emit grows_removeTwoBSender)

lemma grows_maybeDelete: "grows c a b \<Longrightarrow> grows c a (maybeDelete b)"
proof -
  assume g: "grows c a b"
  then have "grows c a (b\<lparr>currentState := Some DeleteFromDisk\<rparr>)" by (simp add: grows_def)
  then show ?thesis using g by (simp add: maybeDelete_def grows_adfd_start)
qed

lemma grows_aalc_start:
  assumes "aalc_start b = Some b'" and "grows c a b"
  shows "grows c a b'"
proof -
  obtain p where p: "outcomeOnDisk b = Some p"
    using assms(1) by (cases "outcomeOnDisk b") (simp_all add: aalc_start_def Let_def)
  have r: "grows c a (removeTwoBSender b)" using assms(2) by (rule grows_removeTwoBSender)
  have u: "grows c a ((removeTwoBSender b)\<lparr>pendingTLC := P, tgcRecipients := T\<rparr>)" for P T
    using r by (simp add: grows_def)
  have v: "grows c a (emit (AddSender s)
      ((removeTwoBSender b)\<lparr>pendingTLC := P, tgcRecipients := T, twoBSender := S, heap := H\<rparr>))"
    for P T S H s
    using r by (auto simp: grows_def)
  show ?thesis
    using assms(1) aalc_start_unfold [OF p] grows_maybeDelete [OF u] v
    by (auto simp: Let_def split: if_splits)
qed

lemma writes_removeTwoBSender: "writes (effects (removeTwoBSender a)) = writes (effects a)"
  by (simp add: removeTwoBSender_def writes_append split: option.split)

lemma writes_maybeDelete: "writes (effects (maybeDelete a)) = writes (effects a)"
  by (simp add: maybeDelete_def adfd_start_def writes_append writes_removeTwoBSender)

lemma sticky_Start:
  assumes "Start a = Some a'"
  shows "grows c a a' \<and> sendToAll a' = sendToAll a
     \<and> ballotAccumulator_Txn a' = ballotAccumulator_Txn a
     \<and> (newest a \<longrightarrow> newest a')"
proof (cases "currentState a = None \<and> outcomeOnDisk a \<noteq> None")
  case True
  then have s: "aalc_start (a\<lparr>currentState := Some AwaitLocallyComplete\<rparr>) = Some a'"
    using assms by (auto simp: Start_def start_component_def)
  have "grows c a (a\<lparr>currentState := Some AwaitLocallyComplete\<rparr>)" by (simp add: grows_def)
  with s aalc_start_props [OF s] show ?thesis
    by (auto dest: grows_aalc_start simp: newest_def)
next
  case False
  then show ?thesis using assms
    by (auto simp: Start_def start_component_def grows_def newest_def split: if_splits)
qed

lemma sticky_BallotAccepted:
  assumes "BallotAccepted eq a r res = Some a'"
  shows "grows (sendToAll a) a a' \<and> (sendToAll a \<longrightarrow> sendToAll a')
     \<and> ballotAccumulator_Txn a' = ballotAccumulator_Txn a
     \<and> (newest a \<longrightarrow> newest a')"
  using assms
  by (auto simp: BallotAccepted_def Let_def nextState_def start_component_def awtd_start_def
      grows_def emit_def newest_def writes_append split: if_splits option.splits)

lemma sticky_writeDone:
  assumes "writeDone a p f = Some a'"
  shows "grows c a a' \<and> sendToAll a' = sendToAll a
     \<and> ballotAccumulator_Txn a' = ballotAccumulator_Txn a
     \<and> (newest a \<longrightarrow> newest a')"
proof (cases "outcome a = Some p \<and> currentState a = Some WriteToDisk")
  case True
  let ?b = "a\<lparr>outcomeOnDisk := Some p, sendToAllOnDisk := f,
               currentState := Some AwaitLocallyComplete\<rparr>"
  have s: "aalc_start ?b = Some a'"
    using assms True by (simp add: writeDone_def nextState_def start_component_def)
  have "grows c a ?b" by (simp add: grows_def)
  with s aalc_start_props [OF s] show ?thesis
    by (auto dest: grows_aalc_start simp: newest_def)
next
  case False
  then show ?thesis using assms by (auto simp: writeDone_def grows_def)
qed

lemma sticky_TLC:
  "grows c a (TxnLocallyCompleteReceived a r)
   \<and> sendToAll (TxnLocallyCompleteReceived a r) = sendToAll a
   \<and> ballotAccumulator_Txn (TxnLocallyCompleteReceived a r) = ballotAccumulator_Txn a
   \<and> (newest a \<longrightarrow> newest (TxnLocallyCompleteReceived a r))"
proof -
  have "grows c a (a\<lparr>tlcsReceived := T, pendingTLC := P\<rparr>)" for T P by (simp add: grows_def)
  moreover have "grows c a (a\<lparr>tlcsReceived := T\<rparr>)" for T by (simp add: grows_def)
  ultimately show ?thesis
    by (simp add: TxnLocallyCompleteReceived_def Let_def grows_maybeDelete newest_def
        maybeDelete_state writes_maybeDelete)
qed

lemma sticky_TSC:
  "grows c a (TxnSubmissionCompleteReceived a r)
   \<and> sendToAll (TxnSubmissionCompleteReceived a r) = sendToAll a
   \<and> ballotAccumulator_Txn (TxnSubmissionCompleteReceived a r) = ballotAccumulator_Txn a
   \<and> (newest a \<longrightarrow> newest (TxnSubmissionCompleteReceived a r))"
proof -
  have "grows c a (a\<lparr>tscReceived := True\<rparr>)" by (simp add: grows_def)
  then show ?thesis
    by (simp add: TxnSubmissionCompleteReceived_def grows_maybeDelete grows_refl newest_def
        maybeDelete_state writes_maybeDelete)
qed

lemma sticky_deletionDone:
  assumes "deletionDone a = Some a'"
  shows "grows c a a' \<and> sendToAll a' = sendToAll a
     \<and> ballotAccumulator_Txn a' = ballotAccumulator_Txn a
     \<and> (newest a \<longrightarrow> newest a')"
  using assms
  by (auto simp: deletionDone_def nextState_def grows_def emit_def newest_def split: if_splits)

lemma sticky_step:
  assumes "step eq a e = Some a'"
  shows "grows (sendToAll a) a a' \<and> (sendToAll a \<longrightarrow> sendToAll a')
     \<and> ballotAccumulator_Txn a' = ballotAccumulator_Txn a
     \<and> (newest a \<longrightarrow> newest a')"
proof (cases e)
  case EvStart
  with assms sticky_Start [of a a' "sendToAll a"] show ?thesis by simp
next
  case (EvBallot r res)
  with assms sticky_BallotAccepted [of eq a r res a'] show ?thesis by simp
next
  case (EvWriteDone k)
  with assms sticky_writeDone [of a _ _ a' "sendToAll a"] show ?thesis
    by (auto simp: grows_refl split: if_splits)
next
  case (EvTLC r)
  with assms sticky_TLC [of "sendToAll a" a r] show ?thesis by auto
next
  case (EvTSC r)
  with assms sticky_TSC [of "sendToAll a" a r] show ?thesis by auto
next
  case EvDeletionDone
  with assms sticky_deletionDone [of a a' "sendToAll a"] show ?thesis by simp
qed

lemma sticky_run:
  "run eq a es = Some a' \<Longrightarrow>
     grows (sendToAll a) a a' \<and> (sendToAll a \<longrightarrow> sendToAll a')
     \<and> ballotAccumulator_Txn a' = ballotAccumulator_Txn a
     \<and> (newest a \<longrightarrow> newest a')"
proof (induction es arbitrary: a)
  case Nil
  then show ?case by (simp add: grows_refl)
next
  case (Cons e es)
  from Cons.prems obtain b where b: "step eq a e = Some b" "run eq b es = Some a'"
    by (auto split: option.splits)
  from sticky_step [OF b(1)] Cons.IH [OF b(2)] show ?case
    by (auto intro: grows_trans)
qed

lemma grows_prefix:
  assumes "grows c a b" and "k < length (writes (effects a))"
  shows "k < length (writes (effects b)) \<and> writes (effects b) ! k = writes (effects a) ! k"
  using assms by (auto simp: grows_def writes_append nth_append)

lemma grows_new_flag:
  assumes "grows True a b" and "length (writes (effects a)) \<le> k"
    and "k < length (writes (effects b))"
  shows "snd (writes (effects b) ! k)"
proof -
  from assms(1) obtain new where n: "effects b = effects a @ new" "\<forall>e\<in>set new. flagged e"
    by (auto simp: grows_def)
  let ?j = "k - length (writes (effects a))"
  have j: "?j < length (writes new)" "writes (effects b) ! k = writes new ! ?j"
    using assms(2,3) n(1) by (auto simp: writes_append nth_append)
  then have "writes new ! ?j \<in> set (writes new)" by simp
  then have "(fst (writes new ! ?j), snd (writes new ! ?j)) \<in> set (writes new)" by simp
  from flagged_writes [OF n(2) this] j(2) show ?thesis by simp
qed


lemma aalc_start_sender:
  assumes "aalc_start b = Some b'" and "twoBSender b' = Some s"
  shows "recipients s = map rmId (filter (\<lambda>al. sendToAllOnDisk b \<or> active al \<noteq> 0)
              (txn_allocations (ballotAccumulator_Txn b)))"
proof -
  obtain p where p: "outcomeOnDisk b = Some p"
    using assms(1) by (cases "outcomeOnDisk b") (simp_all add: aalc_start_def Let_def)
  show ?thesis
    using assms aalc_start_unfold [OF p]
    by (auto simp: Let_def maybeDelete_twoBSender newTwoBTxnVotesSender_def split: if_splits)
qed

lemma BallotAccepted_changed:
  assumes "BallotAccepted eq a r (Some X) = Some a1" and "\<not> eq (heap a) X (outcome a)"
  shows "currentState a1 = Some WriteToDisk \<and> outcome a1 = Some X
     \<and> sendToAll a1 = (sendToAll a \<or> is_commit (heap a X))
     \<and> writes (effects a1) = writes (effects a) @ [(X, sendToAll a \<or> is_commit (heap a X))]
     \<and> last (effects a1) =
         DiskPut X (sendToAll a \<or> is_commit (heap a X))
           \<lparr>st_txn = ballotAccumulator_Txn a, st_outcome = heap a X,
            st_sendToAll = (sendToAll a \<or> is_commit (heap a X))\<rparr>"
  using assms
  by (auto simp: BallotAccepted_def Let_def nextState_def start_component_def awtd_start_def
      emit_def writes_append split: if_splits)

section \<open>Properties of the submitter\<close>

subsection \<open>Allocations\<close>

lemma allocated_sorted_map:
  assumes "allocated conns m2 act r al" and "\<forall>x. map_option sort (m2 x) = map_option sort (m x)"
  shows "allocated conns m act r al"
proof -
  from assms(1) obtain l2 where l2: "m2 r = Some l2" "actionIndices al = map word_of_int (sort l2)"
    by (auto simp: allocated_def)
  have "map_option sort (m r) = Some (sort l2)" using assms(2) l2(1) by (metis option.simps(9))
  then obtain l where "m r = Some l" "sort l = sort l2" by (cases "m r") auto
  with l2 assms(1) show ?thesis by (auto simp: allocated_def)
qed

lemma setAllocations_nth:
  "setAllocations conns i m allocs act rs = Some (m', allocs') \<Longrightarrow>
     length allocs' = length allocs
     \<and> (rs \<noteq> [] \<longrightarrow> i + length rs \<le> length allocs)
     \<and> (\<forall>j<i. allocs' ! j = allocs ! j)
     \<and> (\<forall>j<length rs. allocated conns m act (rs ! j) (allocs' ! (i + j)))
     \<and> (\<forall>x. map_option sort (m' x) = map_option sort (m x))"
proof (induction rs arbitrary: i m allocs)
  case Nil
  then show ?case by simp
next
  case (Cons r rs)
  from Cons.prems obtain l bc where l: "m r = Some l" and i: "i < length allocs"
    and bc: "(if act then conns r else Some 0) = Some bc"
    and rec: "setAllocations conns (Suc i) (m(r \<mapsto> sort l))
        (allocs[i := \<lparr>rmId = r, actionIndices = map word_of_int (sort l), active = bc\<rparr>])
        act rs = Some (m', allocs')"
    by (auto simp: Let_def split: option.splits if_splits)
  let ?a = "\<lparr>rmId = r, actionIndices = map word_of_int (sort l), active = bc\<rparr>"
  let ?m2 = "m(r \<mapsto> sort l)"
  note ih = Cons.IH [OF rec]
  have len: "length allocs' = length allocs" using ih by simp
  have m2: "\<forall>x. map_option sort (?m2 x) = map_option sort (m x)"
    using l by (simp add: sorted_sort_id)
  have pre: "\<forall>j<Suc i. allocs' ! j = (allocs[i := ?a]) ! j" using ih by blast
  have at_i: "allocs' ! i = ?a" using pre i by simp
  have a0: "allocated conns m act r ?a"
    using l bc by (auto simp: allocated_def split: if_splits)
  have rest: "\<forall>j<length rs. allocated conns m act (rs ! j) (allocs' ! (Suc i + j))"
    using ih allocated_sorted_map [OF _ m2] by blast
  have all: "allocated conns m act ((r # rs) ! j) (allocs' ! (i + j))" if "j < length (r # rs)" for j
  proof (cases j)
    case 0
    then show ?thesis using at_i a0 by simp
  next
    case (Suc j')
    then show ?thesis using rest that by simp
  qed
  have bound: "i + length (r # rs) \<le> length allocs"
  proof (cases rs)
    case Nil
    then show ?thesis using i by simp
  next
    case (Cons x xs)
    then show ?thesis using ih by simp
  qed
  have keep: "\<forall>j<i. allocs' ! j = allocs ! j" using pre by simp
  have ms: "\<forall>x. map_option sort (m' x) = map_option sort (m x)" using ih m2 by simp
  from len bound keep all ms show ?case by blast
qed

lemma unat_index: "0 \<le> v \<Longrightarrow> v < 65536 \<Longrightarrow> unat (word_of_int v :: 16 word) = nat v"
  by (simp add: unat_eq_nat_uint uint_word_of_int)

lemma sorted_written:
  assumes "\<forall>v\<in>set l. 0 \<le> v \<and> v < 65536"
  shows "map unat (map word_of_int (sort l) :: 16 word list) = map nat (sort l)
     \<and> sorted (map unat (map word_of_int (sort l) :: 16 word list))"
proof -
  have e: "map unat (map word_of_int (sort l) :: 16 word list) = map nat (sort l)"
    using assms by (simp add: unat_index)
  have "sorted_wrt (\<lambda>x y. nat x \<le> nat y) (sort l)"
    by (rule sorted_wrt_mono_rel [where P = "(\<le>)"]) (auto simp: nat_mono)
  then have s: "sorted (map nat (sort l))" by (simp add: sorted_map)
  show ?thesis unfolding e using s by simp
qed


subsection \<open>Submissions and the topology\<close>

lemma sts_emit_fields [simp]:
  "sts_topology (sts_emit e s) = sts_topology s"
  "bufferedSubmissions (sts_emit e s) = bufferedSubmissions s"
  "outcomeConsumers (sts_emit e s) = outcomeConsumers s"
  "onShutdown (sts_emit e s) = onShutdown s"
  "nextPtr (sts_emit e s) = nextPtr s"
  "hashCache (sts_emit e s) = hashCache s"
  "connections (sts_emit e s) = connections s"
  "sts_effects (sts_emit e s) = sts_effects s @ [e]"
  by (simp_all add: sts_emit_def)







subsection \<open>Deliveries before and after the decision\<close>

lemma deliver_undecided:
  "undecided E (c_outcomeAccumulator c) pre = Some acc \<Longrightarrow> outcomeConsumers s tid = Some c \<Longrightarrow>
     deliverAll E s tid (pre @ rest) =
       deliverAll E
         (s\<lparr>outcomeConsumers := (outcomeConsumers s)(tid \<mapsto> c\<lparr>c_outcomeAccumulator := acc\<rparr>)\<rparr>)
         tid rest"
proof (induction pre arbitrary: s c)
  case Nil
  then have "c\<lparr>c_outcomeAccumulator := acc\<rparr> = c" by simp
  moreover have "(outcomeConsumers s)(tid \<mapsto> c) = outcomeConsumers s"
    using Nil.prems(2) by (simp add: fun_upd_idem)
  ultimately show ?case by simp
next
  case (Cons d pre)
  obtain sender oc where d: "d = (sender, oc)" by (cases d) auto
  from Cons.prems(1) d obtain a1 where
    a1: "ballotOutcomeReceived E (c_outcomeAccumulator c) sender oc = (a1, None)"
      "undecided E a1 pre = Some acc"
    by (auto split: prod.splits option.splits)
  let ?c1 = "c\<lparr>c_outcomeAccumulator := a1\<rparr>"
  let ?s1 = "s\<lparr>outcomeConsumers := (outcomeConsumers s)(tid \<mapsto> ?c1)\<rparr>"
  have st: "SubmissionOutcomeReceived E s sender tid oc = ?s1"
    using Cons.prems(2) a1(1) by (simp add: SubmissionOutcomeReceived_def call_consumer_def)
  have u: "undecided E (c_outcomeAccumulator ?c1) pre = Some acc" using a1(2) by simp
  have o: "outcomeConsumers ?s1 tid = Some ?c1" by simp
  have "deliverAll E s tid ((d # pre) @ rest) = deliverAll E ?s1 tid (pre @ rest)"
    using st d by simp
  also have "\<dots> = deliverAll E
      (?s1\<lparr>outcomeConsumers :=
         (outcomeConsumers ?s1)(tid \<mapsto> ?c1\<lparr>c_outcomeAccumulator := acc\<rparr>)\<rparr>) tid rest"
    by (rule Cons.IH [OF u o])
  also have "?s1\<lparr>outcomeConsumers :=
         (outcomeConsumers ?s1)(tid \<mapsto> ?c1\<lparr>c_outcomeAccumulator := acc\<rparr>)\<rparr>
      = s\<lparr>outcomeConsumers := (outcomeConsumers s)(tid \<mapsto> c\<lparr>c_outcomeAccumulator := acc\<rparr>)\<rparr>"
    by simp
  finally show ?case .
qed

lemma deliver_decided:
  assumes "outcomeConsumers s tid = Some c" and "sf_txnId (c_shutdownFun c) = tid"
    and "ballotOutcomeReceived E (c_outcomeAccumulator c) sender oc = (acc', Some decided)"
  shows "outcomeConsumers (SubmissionOutcomeReceived E s sender tid oc) tid = None
     \<and> onShutdown (SubmissionOutcomeReceived E s sender tid oc)
         = (onShutdown s)(c_shutdownFunPtr c := None)
     \<and> sts_effects (SubmissionOutcomeReceived E s sender tid oc)
         = sts_effects s @
             [RemoveSenderAsync (sf_senderMsg (c_shutdownFun c)) (sf_activeRMs (c_shutdownFun c)),
              NewOneShotSender (TxnSubmissionComplete tid) (sf_acceptors (c_shutdownFun c)),
              Continuation (c_continuation c) tid (Some decided)]"
  using assms
  by (simp add: SubmissionOutcomeReceived_def call_consumer_def call_shutdownFun_def Let_def
      sts_emit_def)

lemma deliver_unknown:
  "outcomeConsumers s tid = None \<Longrightarrow>
     outcomeConsumers (deliverAll E s tid post) = outcomeConsumers s
     \<and> onShutdown (deliverAll E s tid post) = onShutdown s
     \<and> sts_effects (deliverAll E s tid post)
         = sts_effects s @ map (\<lambda>d. NewOneShotSender (TxnSubmissionComplete tid) [fst d]) post"
proof (induction post arbitrary: s)
  case Nil
  then show ?case by simp
next
  case (Cons d post)
  obtain sender oc where d: "d = (sender, oc)" by (cases d) auto
  let ?s1 = "sts_emit (NewOneShotSender (TxnSubmissionComplete tid) [sender]) s"
  have st: "SubmissionOutcomeReceived E s sender tid oc = ?s1"
    using Cons.prems by (simp add: SubmissionOutcomeReceived_def)
  have "outcomeConsumers ?s1 tid = None" using Cons.prems by simp
  from Cons.IH [OF this] st d show ?case by simp
qed

lemma undecided_effects:
  "undecided E (c_outcomeAccumulator c) pre = Some acc \<Longrightarrow> outcomeConsumers s tid = Some c \<Longrightarrow>
     sts_effects (deliverAll E s tid pre) = sts_effects s
     \<and> outcomeConsumers (deliverAll E s tid pre) tid = Some (c\<lparr>c_outcomeAccumulator := acc\<rparr>)
     \<and> onShutdown (deliverAll E s tid pre) = onShutdown s"
  using deliver_undecided [of E c pre acc s tid "[]"] by simp

section \<open>The 2B sender's messages\<close>

text \<open>
  C3 (as amended). A 2B sender built for an abort keeps the update payloads in the
  message for the submitter, which is encoded before the rewrite; the outcome is then
  rewritten in place to Abort/Resubmit, and it is the TwoBTxnVotes message for the
  recipients that carries the rewritten outcome. For a commit both messages carry the
  outcome unchanged.
\<close>

theorem newTwoBTxnVotesSender_messages:
  "submitterMsg (fst (newTwoBTxnVotesSender h oc tid sub rcpts)) = SubmissionOutcome (h oc)
   \<and> msg (fst (newTwoBTxnVotesSender h oc tid sub rcpts))
       = TwoBTxnVotes (if is_abort (h oc) then Abort Resubmit else h oc)
   \<and> snd (newTwoBTxnVotesSender h oc tid sub rcpts)
       = (if is_abort (h oc) then h(oc := Abort Resubmit) else h)
   \<and> recipients (fst (newTwoBTxnVotesSender h oc tid sub rcpts)) = rcpts
   \<and> submitter (fst (newTwoBTxnVotesSender h oc tid sub rcpts)) = sub"
  by (simp add: newTwoBTxnVotesSender_def Let_def)

text \<open>
  C3 as stated fails: for an abort carrying updates the submitter message still has the
  updates, and the 2B message is not the outcome the sender was built with.
\<close>

theorem newTwoBTxnVotesSender_counterexample:
  "submitterMsg (fst (newTwoBTxnVotesSender (\<lambda>_. Abort (Rerun [7])) 0 [1] 1 [2, 3]))
     = SubmissionOutcome (Abort (Rerun [7]))
   \<and> msg (fst (newTwoBTxnVotesSender (\<lambda>_. Abort (Rerun [7])) 0 [1] 1 [2, 3]))
     = TwoBTxnVotes (Abort Resubmit)"
  by (simp add: newTwoBTxnVotesSender_def Let_def)

lemmas acceptor_defs =
  NewAcceptor_def AcceptorFromData_def Start_def start_component_def BallotAccepted_def
  nextState_def awtd_start_def emit_def writeDone_def aalc_start_def removeTwoBSender_def
  newTwoBTxnVotesSender_def Let_def TxnSubmissionCompleteReceived_def
  TxnLocallyCompleteReceived_def maybeDelete_def adfd_start_def deletionDone_def
  example_txn_def example_heap_def insert_Diff_if

section \<open>Entering DeleteFromDisk\<close>

text \<open>
  C1. An acceptor, fresh or rebuilt from disk, that any run of events has brought to
  DeleteFromDisk has an empty \<open>pendingTLC\<close>, has received the TSC, and holds on disk
  the outcome it holds in memory. Every entry into DeleteFromDisk ends a run, so this
  covers entry through \<open>maybeDelete\<close> after a TLC, after a TSC and from the start of
  AwaitLocallyComplete.
\<close>

theorem deleteFromDisk_only_when_complete:
  assumes "a0 = NewAcceptor tid t h \<or> a0 = AcceptorFromData tid t oc sta h"
    and "run eq a0 es = Some a"
    and "currentState a = Some DeleteFromDisk"
  shows "pendingTLC a = {} \<and> tscReceived a \<and> outcomeOnDisk a = outcome a"
proof -
  have "inv a0"
    using assms(1) by (auto simp: inv_def NewAcceptor_def AcceptorFromData_def)
  then have "inv a" using assms(2) by (rule inv_run)
  then show ?thesis using assms(3) by (simp add: inv_def)
qed

theorem deleteFromDisk_only_when_complete_witness:
  "\<exists>a. run (\<lambda>h p q. q = Some p) (NewAcceptor [1] example_txn example_heap)
          [EvStart, EvBallot 1 (Some 0), EvWriteDone 0, EvTSC 9, EvTLC 1, EvTLC 2] = Some a
       \<and> currentState a = Some DeleteFromDisk
       \<and> pendingTLC a = {} \<and> tscReceived a \<and> outcomeOnDisk a = outcome a"
proof -
  obtain a where r: "run (\<lambda>h p q. q = Some p) (NewAcceptor [1] example_txn example_heap)
          [EvStart, EvBallot 1 (Some 0), EvWriteDone 0, EvTSC 9, EvTLC 1, EvTLC 2] = Some a"
    using run_total by blast
  have s: "currentState a = Some DeleteFromDisk"
    using r by (auto simp: acceptor_defs)
  from deleteFromDisk_only_when_complete [OF disjI1 [OF refl] r s] r s
  show ?thesis by blast
qed


section \<open>Recipients on entering AwaitLocallyComplete\<close>

text \<open>
  C5. When AwaitLocallyComplete starts, the loop over the allocations yields: as
  \<open>twoBRecipients\<close> the replicas of the allocations that are active or, with
  \<open>sendToAllOnDisk\<close>, of all allocations; as \<open>pendingTLC\<close> those of them from which no
  TLC has been received; as \<open>tgcRecipients\<close> the replicas of the allocations that are
  active or, when the outcome on disk is a commit, of all allocations. A sender that is
  installed is addressed to \<open>twoBRecipients\<close>. So \<open>pendingTLC\<close> is within
  \<open>twoBRecipients\<close>, which is within the replicas of the allocations.
\<close>

theorem aalc_start_recipients:
  assumes "aalc_start a = Some a'"
  shows "\<exists>p. outcomeOnDisk a = Some p
     \<and> alc_allocs (sendToAllOnDisk a) (is_abort (heap a p)) (tlcsReceived a)
          (txn_allocations (ballotAccumulator_Txn a)) ({}, [], [])
        = (pendingTLC a', tgcRecipients a',
           map rmId (filter (\<lambda>al. sendToAllOnDisk a \<or> active al \<noteq> 0)
              (txn_allocations (ballotAccumulator_Txn a))))
     \<and> pendingTLC a' =
         {r \<in> set (map rmId (filter (\<lambda>al. sendToAllOnDisk a \<or> active al \<noteq> 0)
              (txn_allocations (ballotAccumulator_Txn a)))). r \<notin> tlcsReceived a}
     \<and> tgcRecipients a' =
         map rmId (filter (\<lambda>al. is_commit (heap a p) \<or> active al \<noteq> 0)
              (txn_allocations (ballotAccumulator_Txn a)))
     \<and> (\<forall>s. twoBSender a' = Some s \<longrightarrow>
           recipients s = map rmId (filter (\<lambda>al. sendToAllOnDisk a \<or> active al \<noteq> 0)
              (txn_allocations (ballotAccumulator_Txn a))))
     \<and> pendingTLC a' \<subseteq> set (map rmId (filter (\<lambda>al. sendToAllOnDisk a \<or> active al \<noteq> 0)
              (txn_allocations (ballotAccumulator_Txn a))))
     \<and> set (map rmId (filter (\<lambda>al. sendToAllOnDisk a \<or> active al \<noteq> 0)
              (txn_allocations (ballotAccumulator_Txn a))))
         \<subseteq> rmId ` set (txn_allocations (ballotAccumulator_Txn a))"
proof -
  obtain p where p: "outcomeOnDisk a = Some p"
    using assms by (cases "outcomeOnDisk a") (simp_all add: aalc_start_def Let_def)
  let ?twoB = "map rmId (filter (\<lambda>al. sendToAllOnDisk a \<or> active al \<noteq> 0)
              (txn_allocations (ballotAccumulator_Txn a)))"
  let ?tgc = "map rmId (filter (\<lambda>al. is_commit (heap a p) \<or> active al \<noteq> 0)
              (txn_allocations (ballotAccumulator_Txn a)))"
  have pend: "pendingTLC a' = {r \<in> set ?twoB. r \<notin> tlcsReceived a}"
    using assms aalc_start_unfold [OF p]
    by (auto simp: Let_def split: if_splits)
  have tgc: "tgcRecipients a' = ?tgc"
    using assms aalc_start_unfold [OF p]
    by (auto simp: Let_def split: if_splits)
  have snd: "\<forall>s. twoBSender a' = Some s \<longrightarrow> recipients s = ?twoB"
    using assms aalc_start_unfold [OF p]
    by (auto simp: Let_def maybeDelete_twoBSender newTwoBTxnVotesSender_def split: if_splits)
  have loop: "alc_allocs (sendToAllOnDisk a) (is_abort (heap a p)) (tlcsReceived a)
          (txn_allocations (ballotAccumulator_Txn a)) ({}, [], [])
        = (pendingTLC a', tgcRecipients a', ?twoB)"
    by (simp add: alc_allocs_result pend tgc not_abort_commit)
  have sub1: "pendingTLC a' \<subseteq> set ?twoB" using pend by blast
  have sub2: "set ?twoB \<subseteq> rmId ` set (txn_allocations (ballotAccumulator_Txn a))" by auto
  from p loop pend tgc snd sub1 sub2 show ?thesis by blast
qed


theorem aalc_start_recipients_witness:
  "map_option pendingTLC
      (aalc_start ((AcceptorFromData [1] example_txn (Some 0) False example_heap)
         \<lparr>currentState := Some AwaitLocallyComplete, tlcsReceived := {2}\<rparr>)) = Some {1}
   \<and> map_option tgcRecipients
      (aalc_start ((AcceptorFromData [1] example_txn (Some 0) False example_heap)
         \<lparr>currentState := Some AwaitLocallyComplete, tlcsReceived := {2}\<rparr>)) = Some [1, 2]
   \<and> map_option (map_option recipients \<circ> twoBSender)
      (aalc_start ((AcceptorFromData [1] example_txn (Some 0) False example_heap)
         \<lparr>currentState := Some AwaitLocallyComplete, tlcsReceived := {2}\<rparr>)) = Some (Some [1, 2])"
proof -
  let ?a = "(AcceptorFromData [1] example_txn (Some 0) False example_heap)
         \<lparr>currentState := Some AwaitLocallyComplete, tlcsReceived := {2}\<rparr>"
  obtain a' where h: "aalc_start ?a = Some a'"
    using aalc_start_total [of ?a 0] by (auto simp: AcceptorFromData_def)
  have s: "twoBSender a' \<noteq> None"
    using h by (auto simp: acceptor_defs)
  from aalc_start_recipients [OF h] h s show ?thesis
    by (auto simp: AcceptorFromData_def NewAcceptor_def example_txn_def example_heap_def)
qed

section \<open>A ballot in DeleteFromDisk\<close>

text \<open>
  C2 (as amended). A ballot that arrives in DeleteFromDisk is logged as an error and then
  handled like any other ballot: when the accumulator returns nothing, or an outcome
  equal to the one held, only the log line is added; when it returns a different
  outcome, the acceptor holds that outcome, re-enters WriteToDisk and schedules a write.
\<close>

theorem ballot_in_DeleteFromDisk:
  assumes "currentState a = Some DeleteFromDisk"
  shows "BallotAccepted eq a r None = Some (emit (LogBallotAfterTLCs (txnId a) r) a)
     \<and> (eq (heap a) oc (outcome a) \<longrightarrow>
          BallotAccepted eq a r (Some oc) = Some (emit (LogBallotAfterTLCs (txnId a) r) a))
     \<and> (\<not> eq (heap a) oc (outcome a) \<longrightarrow>
          (\<exists>a'. BallotAccepted eq a r (Some oc) = Some a'
             \<and> currentState a' = Some WriteToDisk \<and> outcome a' = Some oc
             \<and> effects a' = effects a @
                 [LogBallotAfterTLCs (txnId a) r,
                  DiskPut oc (sendToAll a \<or> is_commit (heap a oc))
                    \<lparr>st_txn = ballotAccumulator_Txn a, st_outcome = heap a oc,
                     st_sendToAll = (sendToAll a \<or> is_commit (heap a oc))\<rparr>]))"
  using assms
  by (simp add: BallotAccepted_def Let_def nextState_def start_component_def awtd_start_def
      emit_def)

theorem ballot_in_DeleteFromDisk_witness:
  "map_option currentState
     (BallotAccepted samePointer
        ((AcceptorFromData [1] example_txn (Some 0) False example_heap)
           \<lparr>currentState := Some DeleteFromDisk\<rparr>) 1 (Some 1)) = Some (Some WriteToDisk)
   \<and> map_option effects
     (BallotAccepted samePointer
        ((AcceptorFromData [1] example_txn (Some 0) False example_heap)
           \<lparr>currentState := Some DeleteFromDisk\<rparr>) 1 (Some 0))
       = Some [LogBallotAfterTLCs [1] 1]"
proof -
  let ?a = "(AcceptorFromData [1] example_txn (Some 0) False example_heap)
           \<lparr>currentState := Some DeleteFromDisk\<rparr>"
  have s: "currentState ?a = Some DeleteFromDisk" by simp
  have e: "\<not> samePointer (heap ?a) 1 (outcome ?a)" "samePointer (heap ?a) 0 (outcome ?a)"
    by (simp_all add: samePointer_def AcceptorFromData_def NewAcceptor_def)
  from ballot_in_DeleteFromDisk [OF s, of samePointer 1 1] e(1)
  have "\<exists>a'. BallotAccepted samePointer ?a 1 (Some 1) = Some a'
             \<and> currentState a' = Some WriteToDisk" by blast
  moreover from ballot_in_DeleteFromDisk [OF s, of samePointer 1 0] e(2)
  have "BallotAccepted samePointer ?a 1 (Some 0) = Some (emit (LogBallotAfterTLCs (txnId ?a) 1) ?a)"
    by blast
  ultimately show ?thesis
    by (auto simp: AcceptorFromData_def NewAcceptor_def)
qed

text \<open>
  C2 as stated fails: an acceptor brought to DeleteFromDisk by an abort, the TSC and the
  TLCs of both active replicas re-enters WriteToDisk on a ballot that changes the outcome.
\<close>

theorem ballot_in_DeleteFromDisk_counterexample:
  "map_option currentState
     (run samePointer (NewAcceptor [1] example_txn example_heap)
        [EvStart, EvBallot 1 (Some 0), EvWriteDone 0, EvTSC 9, EvTLC 1, EvTLC 2])
     = Some (Some DeleteFromDisk)
   \<and> map_option currentState
     (run samePointer (NewAcceptor [1] example_txn example_heap)
        [EvStart, EvBallot 1 (Some 0), EvWriteDone 0, EvTSC 9, EvTLC 1, EvTLC 2,
         EvBallot 3 (Some 1)])
     = Some (Some WriteToDisk)
   \<and> map_option outcome
     (run samePointer (NewAcceptor [1] example_txn example_heap)
        [EvStart, EvBallot 1 (Some 0), EvWriteDone 0, EvTSC 9, EvTLC 1, EvTLC 2,
         EvBallot 3 (Some 1)])
     = Some (Some 1)"
  by (simp add: acceptor_defs samePointer_def)


section \<open>Completion of a disk write\<close>

text \<open>
  C4. A ballot that changes the outcome to \<open>X\<close> enters WriteToDisk and schedules a write
  that records the outcome and the flag \<open>f = sendToAll\<close> (set if it was set or \<open>X\<close> is a
  commit); its completion carries \<open>X\<close> and \<open>f\<close>. Whatever events follow, that
  completion enters AwaitLocallyComplete with \<open>outcomeOnDisk = X\<close> and
  \<open>sendToAllOnDisk = f\<close> exactly when the outcome held is still \<open>X\<close> and the state is
  still WriteToDisk (the start of AwaitLocallyComplete may go on to DeleteFromDisk at
  once); otherwise it changes nothing. Whenever the acceptor is in WriteToDisk, the
  newest scheduled write is the one for the outcome held, with the current flag, and
  its completion makes the transition: after a change to \<open>Y\<close> the completion for \<open>X\<close>
  is dropped and the completion for \<open>Y\<close> is accepted.
\<close>

theorem write_completion:
  fixes a :: acceptor and X :: addr and k :: nat and f :: bool
  defines "k \<equiv> length (writes (effects a))"
      and "f \<equiv> (sendToAll a \<or> is_commit (heap a X))"
  assumes "BallotAccepted eq a r (Some X) = Some a1"
      and "\<not> eq (heap a) X (outcome a)"
      and "run eq a1 es = Some b"
  shows "currentState a1 = Some WriteToDisk \<and> outcome a1 = Some X \<and> sendToAll a1 = f
     \<and> writes (effects a1) = writes (effects a) @ [(X, f)]
     \<and> last (effects a1) =
         DiskPut X f \<lparr>st_txn = ballotAccumulator_Txn a, st_outcome = heap a X,
                      st_sendToAll = f\<rparr>
     \<and> k < length (writes (effects b)) \<and> writes (effects b) ! k = (X, f)
     \<and> (outcome b = Some X \<and> currentState b = Some WriteToDisk \<longrightarrow>
          step eq b (EvWriteDone k) =
            aalc_start (b\<lparr>outcomeOnDisk := Some X, sendToAllOnDisk := f,
                          currentState := Some AwaitLocallyComplete\<rparr>)
          \<and> (\<exists>b'. step eq b (EvWriteDone k) = Some b' \<and> b' \<noteq> b
                \<and> outcomeOnDisk b' = Some X \<and> sendToAllOnDisk b' = f \<and> outcome b' = Some X
                \<and> (currentState b' = Some AwaitLocallyComplete
                    \<or> currentState b' = Some DeleteFromDisk
                       \<and> pendingTLC b' = {} \<and> tscReceived b')))
     \<and> (\<not> (outcome b = Some X \<and> currentState b = Some WriteToDisk) \<longrightarrow>
          step eq b (EvWriteDone k) = Some b)
     \<and> (currentState b = Some WriteToDisk \<longrightarrow>
          (\<exists>Y. outcome b = Some Y \<and> writes (effects b) \<noteq> []
             \<and> last (writes (effects b)) = (Y, sendToAll b)
             \<and> (\<exists>b'. step eq b (EvWriteDone (length (writes (effects b)) - 1)) = Some b'
                   \<and> b' \<noteq> b \<and> outcomeOnDisk b' = Some Y
                   \<and> sendToAllOnDisk b' = sendToAll b \<and> outcome b' = Some Y
                   \<and> (currentState b' = Some AwaitLocallyComplete
                       \<or> currentState b' = Some DeleteFromDisk
                          \<and> pendingTLC b' = {} \<and> tscReceived b'))))"
proof -
  note st = BallotAccepted_changed [OF assms(3,4), folded f_def]
  have k1: "k < length (writes (effects a1))" "writes (effects a1) ! k = (X, f)"
    using st by (simp_all add: k_def)
  have n1: "newest a1" using st by (simp add: newest_def)
  from sticky_run [OF assms(5)] n1
  have g: "grows (sendToAll a1) a1 b" and nb: "newest b" by blast+
  from grows_prefix [OF g k1(1)] k1(2)
  have kb: "k < length (writes (effects b))" "writes (effects b) ! k = (X, f)" by simp_all
  then have sk: "step eq b (EvWriteDone k) = writeDone b X f" by simp
  have new: "\<exists>Y. outcome b = Some Y \<and> writes (effects b) \<noteq> []
             \<and> last (writes (effects b)) = (Y, sendToAll b)
             \<and> (\<exists>b'. step eq b (EvWriteDone (length (writes (effects b)) - 1)) = Some b'
                   \<and> b' \<noteq> b \<and> outcomeOnDisk b' = Some Y
                   \<and> sendToAllOnDisk b' = sendToAll b \<and> outcome b' = Some Y
                   \<and> (currentState b' = Some AwaitLocallyComplete
                       \<or> currentState b' = Some DeleteFromDisk
                          \<and> pendingTLC b' = {} \<and> tscReceived b'))"
    if w: "currentState b = Some WriteToDisk"
  proof -
    from nb w obtain Y where Y: "outcome b = Some Y" "writes (effects b) \<noteq> []"
      "last (writes (effects b)) = (Y, sendToAll b)" by (auto simp: newest_def)
    let ?j = "length (writes (effects b)) - 1"
    have "writes (effects b) ! ?j = (Y, sendToAll b)"
      using Y(2,3) by (simp add: last_conv_nth)
    moreover have "?j < length (writes (effects b))" using Y(2) by simp
    ultimately have "step eq b (EvWriteDone ?j) = writeDone b Y (sendToAll b)" by simp
    with writeDone_cases [of b Y "sendToAll b"] Y w show ?thesis by auto
  qed
  from st kb sk writeDone_cases [of b X f] new show ?thesis by auto
qed


theorem write_completion_witness:
  "map_option currentState
     (run samePointer (NewAcceptor [1] example_txn example_heap)
        [EvStart, EvBallot 1 (Some 0), EvWriteDone 0]) = Some (Some AwaitLocallyComplete)
   \<and> map_option outcomeOnDisk
     (run samePointer (NewAcceptor [1] example_txn example_heap)
        [EvStart, EvBallot 1 (Some 0), EvWriteDone 0]) = Some (Some 0)
   \<and> map_option sendToAllOnDisk
     (run samePointer (NewAcceptor [1] example_txn example_heap)
        [EvStart, EvBallot 1 (Some 0), EvWriteDone 0]) = Some False
   \<and> run samePointer (NewAcceptor [1] example_txn example_heap)
        [EvStart, EvBallot 1 (Some 0), EvBallot 2 (Some 1), EvWriteDone 0]
     = run samePointer (NewAcceptor [1] example_txn example_heap)
        [EvStart, EvBallot 1 (Some 0), EvBallot 2 (Some 1)]
   \<and> map_option currentState
     (run samePointer (NewAcceptor [1] example_txn example_heap)
        [EvStart, EvBallot 1 (Some 0), EvBallot 2 (Some 1), EvWriteDone 1])
       = Some (Some AwaitLocallyComplete)
   \<and> map_option outcomeOnDisk
     (run samePointer (NewAcceptor [1] example_txn example_heap)
        [EvStart, EvBallot 1 (Some 0), EvBallot 2 (Some 1), EvWriteDone 1]) = Some (Some 1)
   \<and> map_option sendToAllOnDisk
     (run samePointer (NewAcceptor [1] example_txn example_heap)
        [EvStart, EvBallot 1 (Some 0), EvBallot 2 (Some 1), EvWriteDone 1]) = Some True"
proof -
  let ?a0 = "NewAcceptor [1] example_txn example_heap"
  obtain a where a: "Start ?a0 = Some a" using Start_total by blast
  obtain a1 where a1: "BallotAccepted samePointer a 1 (Some 0) = Some a1"
    using BallotAccepted_total by blast
  obtain b where b: "run samePointer a1 [EvBallot 2 (Some 1)] = Some b"
    using run_total by blast
  have a_eq: "a = ?a0\<lparr>currentState := Some ReceiveBallots\<rparr>"
    using a by (simp add: acceptor_defs)
  have ne: "\<not> samePointer (heap a) 0 (outcome a)"
    by (simp add: a_eq samePointer_def NewAcceptor_def)
  have e0: "run samePointer a1 [] = Some a1" by simp
  have k0: "length (writes (effects a)) = 0" by (simp add: a_eq NewAcceptor_def)
  have f0: "(sendToAll a \<or> is_commit (heap a 0)) = False"
    by (simp add: a_eq NewAcceptor_def example_heap_def)
  have r1: "run samePointer ?a0 (EvStart # EvBallot 1 (Some 0) # es) = run samePointer a1 es"
    for es using a a1 by simp
  have bw: "outcome b = Some 1 \<and> currentState b = Some WriteToDisk \<and> sendToAll b
      \<and> length (writes (effects b)) = 2"
    using b a1 by (auto simp: a_eq acceptor_defs samePointer_def)
  from write_completion [OF a1 ne e0, unfolded k0 f0]
  have w1: "\<exists>b'. step samePointer a1 (EvWriteDone 0) = Some b'
      \<and> outcomeOnDisk b' = Some 0 \<and> sendToAllOnDisk b' = False" by auto
  have s1: "map_option currentState (run samePointer a1 [EvWriteDone 0])
      = Some (Some AwaitLocallyComplete)"
    using a1 by (auto simp: a_eq acceptor_defs samePointer_def)
  from write_completion [OF a1 ne b, unfolded k0 f0] bw
  have w2: "step samePointer b (EvWriteDone 0) = Some b
      \<and> (\<exists>b'. step samePointer b (EvWriteDone 1) = Some b'
            \<and> outcomeOnDisk b' = Some 1 \<and> sendToAllOnDisk b' = True)" by auto
  have s2: "map_option currentState (run samePointer a1 [EvBallot 2 (Some 1), EvWriteDone 1])
      = Some (Some AwaitLocallyComplete)"
    using a1 by (auto simp: a_eq acceptor_defs samePointer_def)
  have rb: "run samePointer a1 (EvBallot 2 (Some 1) # es) = run samePointer b es" for es
    using b by (auto split: option.splits)
  show ?thesis
    unfolding r1 using w1 s1 w2 s2 unfolding rb by auto
qed

section \<open>The sendToAll flag\<close>

text \<open>
  C10. Once \<open>sendToAll\<close> is set it stays set through every run of events, and every
  write scheduled from then on records and passes on \<open>sendToAll = true\<close>, whatever the
  outcome. When the completion of such a write, or of an earlier write that passed on
  the flag, is accepted, \<open>sendToAllOnDisk\<close> is set and a 2B sender that is installed is
  addressed to the replicas of all allocations. The flag is set by the ballot that
  starts a write for a commit, which is itself a write that passes on the flag, and in
  an acceptor rebuilt from disk with the flag, whose first sender is addressed to all
  replicas too.
\<close>

theorem sendToAll_sticky:
  assumes "sendToAll a" and "run eq a es = Some a'"
  shows "sendToAll a'
     \<and> (\<exists>new. effects a' = effects a @ new \<and> (\<forall>e\<in>set new. flagged e))
     \<and> (\<forall>k a''. (length (writes (effects a)) \<le> k \<or> snd (writes (effects a) ! k))
           \<and> step eq a' (EvWriteDone k) = Some a'' \<and> a'' \<noteq> a' \<longrightarrow>
           sendToAllOnDisk a''
           \<and> (\<forall>s. twoBSender a'' = Some s \<longrightarrow>
                 recipients s = map rmId (txn_allocations (ballotAccumulator_Txn a))))
     \<and> (BallotAccepted eq a0 r (Some p) = Some a1 \<and> \<not> eq (heap a0) p (outcome a0)
           \<and> is_commit (heap a0 p) \<longrightarrow>
         sendToAll a1
         \<and> writes (effects a1) = writes (effects a0) @ [(p, True)]
         \<and> last (effects a1) =
             DiskPut p True \<lparr>st_txn = ballotAccumulator_Txn a0, st_outcome = heap a0 p,
                             st_sendToAll = True\<rparr>)
     \<and> sendToAll (AcceptorFromData tid t oc True h)
     \<and> sendToAllOnDisk (AcceptorFromData tid t oc True h)
     \<and> (Start (AcceptorFromData tid t (Some q) True h) = Some a2 \<longrightarrow>
          (\<forall>s. twoBSender a2 = Some s \<longrightarrow> recipients s = map rmId (txn_allocations t)))"
proof -
  from sticky_run [OF assms(2)] assms(1)
  have g: "grows True a a'" and s: "sendToAll a'"
    and t: "ballotAccumulator_Txn a' = ballotAccumulator_Txn a" by auto
  have new: "\<exists>new. effects a' = effects a @ new \<and> (\<forall>e\<in>set new. flagged e)"
    using g by (simp add: grows_def)
  have compl: "sendToAllOnDisk a''
           \<and> (\<forall>s. twoBSender a'' = Some s \<longrightarrow>
                 recipients s = map rmId (txn_allocations (ballotAccumulator_Txn a)))"
    if h: "length (writes (effects a)) \<le> k \<or> snd (writes (effects a) ! k)"
      "step eq a' (EvWriteDone k) = Some a''" "a'' \<noteq> a'"
    for k a''
  proof -
    have k: "k < length (writes (effects a'))" using h(2,3) by (auto split: if_splits)
    let ?p = "fst (writes (effects a') ! k)"
    have f: "snd (writes (effects a') ! k)"
    proof (cases "length (writes (effects a)) \<le> k")
      case True
      then show ?thesis by (rule grows_new_flag [OF g _ k])
    next
      case False
      then have "k < length (writes (effects a))" by simp
      from grows_prefix [OF g this] h(1) False show ?thesis by simp
    qed
    have w: "writeDone a' ?p True = Some a''" using h(2) k f by simp
    with writeDone_cases [of a' ?p True] h(3)
    have c: "aalc_start (a'\<lparr>outcomeOnDisk := Some ?p, sendToAllOnDisk := True,
                      currentState := Some AwaitLocallyComplete\<rparr>) = Some a''"
      and d: "sendToAllOnDisk a''" by auto
    from aalc_start_sender [OF c] t d show ?thesis by simp
  qed
  have commit: "sendToAll a1
         \<and> writes (effects a1) = writes (effects a0) @ [(p, True)]
         \<and> last (effects a1) =
             DiskPut p True \<lparr>st_txn = ballotAccumulator_Txn a0, st_outcome = heap a0 p,
                             st_sendToAll = True\<rparr>"
    if "BallotAccepted eq a0 r (Some p) = Some a1" "\<not> eq (heap a0) p (outcome a0)"
      "is_commit (heap a0 p)"
    using BallotAccepted_changed [OF that(1,2)] that(3) by simp
  have rebuilt: "\<forall>s. twoBSender a2 = Some s \<longrightarrow> recipients s = map rmId (txn_allocations t)"
    if "Start (AcceptorFromData tid t (Some q) True h) = Some a2"
  proof -
    from that have "aalc_start ((AcceptorFromData tid t (Some q) True h)
        \<lparr>currentState := Some AwaitLocallyComplete\<rparr>) = Some a2"
      by (simp add: Start_def start_component_def AcceptorFromData_def NewAcceptor_def)
    from aalc_start_sender [OF this] show ?thesis
      by (simp add: AcceptorFromData_def NewAcceptor_def)
  qed
  have fd: "sendToAll (AcceptorFromData tid t oc True h)
     \<and> sendToAllOnDisk (AcceptorFromData tid t oc True h)"
    by (simp add: AcceptorFromData_def)
  from s new compl commit rebuilt fd show ?thesis by blast
qed


theorem sendToAll_sticky_witness:
  "map_option sendToAll
     (run samePointer (NewAcceptor [1] example_txn example_heap)
        [EvStart, EvBallot 1 (Some 1), EvBallot 2 (Some 0)]) = Some True
   \<and> map_option (writes \<circ> effects)
     (run samePointer (NewAcceptor [1] example_txn example_heap)
        [EvStart, EvBallot 1 (Some 1), EvBallot 2 (Some 0)]) = Some [(1, True), (0, True)]
   \<and> map_option sendToAllOnDisk
     (run samePointer (NewAcceptor [1] example_txn example_heap)
        [EvStart, EvBallot 1 (Some 1), EvBallot 2 (Some 0), EvWriteDone 1]) = Some True
   \<and> map_option (map_option recipients \<circ> twoBSender)
     (run samePointer (NewAcceptor [1] example_txn example_heap)
        [EvStart, EvBallot 1 (Some 1), EvBallot 2 (Some 0), EvWriteDone 1])
       = Some (Some [1, 2, 3])"
proof -
  let ?a0 = "NewAcceptor [1] example_txn example_heap"
  obtain a where a: "run samePointer ?a0 [EvStart, EvBallot 1 (Some 1)] = Some a"
    using run_total by blast
  obtain a' where a': "run samePointer a [EvBallot 2 (Some 0)] = Some a'"
    using run_total by blast
  obtain a'' where a'': "step samePointer a' (EvWriteDone 1) = Some a''"
    using step_total by blast
  have sa: "sendToAll a" "length (writes (effects a)) = 1"
      "txn_allocations (ballotAccumulator_Txn a) = txn_allocations example_txn"
    using a by (auto simp: acceptor_defs samePointer_def)
  have w: "writes (effects a') = [(1, True), (0, True)]" "currentState a' = Some WriteToDisk"
    using a a' by (auto simp: acceptor_defs samePointer_def)
  have ne: "a'' \<noteq> a'" "twoBSender a'' \<noteq> None"
    using a a' a'' by (auto simp: acceptor_defs samePointer_def)
  from sendToAll_sticky [OF sa(1) a', of a0 r p a1 tid t oc h q a2] a'' ne sa(2,3)
  have "sendToAll a' \<and> sendToAllOnDisk a''
     \<and> (\<forall>s. twoBSender a'' = Some s \<longrightarrow> recipients s = map rmId (txn_allocations example_txn))"
    for a0 r p a1 tid t oc h q a2
    by auto
  then have r: "sendToAll a' \<and> sendToAllOnDisk a''
     \<and> map_option recipients (twoBSender a'') = Some [1, 2, 3]"
    using ne(2) by (auto simp: example_txn_def)
  have r1: "run samePointer ?a0 (EvStart # EvBallot 1 (Some 1) # EvBallot 2 (Some 0) # es)
      = run samePointer a' es" for es
    using a a' by (auto split: option.splits)
  show ?thesis unfolding r1 using r w a'' by simp
qed


section \<open>Allocations of a server transaction\<close>

text \<open>
  C7 (as amended). A server transaction built by \<open>clientToServerTxn\<close> lists the active
  replicas first, in the order chosen, then the passive ones. The allocation of a replica
  holds the replica's action indices sorted ascending and each written as its low 16
  bits; the written list is therefore ascending, and equal to the sorted indices,
  whenever all indices are below 65536. An active allocation carries the boot count of
  the submitter's connection to the replica, a passive one zero.
\<close>

theorem clientToServerTxn_allocations:
  assumes "clientToServerTxn E s c = Some (s', Inr (t, activeRMs, passiveRMs))"
      and "translateActions E (hashCache s) (sts_topology s) (sts_rmId s)
             (newCombinationPicker E (unat (FInc (sts_topology s))) (disabledHashCodes s)) c
           = Some (h, Inr (acts, m, p))"
  shows "length (txn_allocations t) = length activeRMs + length passiveRMs
     \<and> (\<forall>j<length activeRMs.
           allocated (connections s) m True (activeRMs ! j) (txn_allocations t ! j))
     \<and> (\<forall>j<length passiveRMs.
           allocated (connections s) m False (passiveRMs ! j)
             (txn_allocations t ! (length activeRMs + j)))
     \<and> (\<forall>al\<in>set (txn_allocations t).
           \<exists>l. m (rmId al) = Some l \<and> actionIndices al = map word_of_int (sort l)
             \<and> ((\<forall>v\<in>set l. 0 \<le> v \<and> v < 65536) \<longrightarrow>
                   sorted (map unat (actionIndices al))
                   \<and> map unat (actionIndices al) = map nat (sort l)))"
proof -
  let ?z = "\<lparr>rmId = 0, actionIndices = [], active = 0 :: 32 word\<rparr>"
  let ?n = "length activeRMs + length passiveRMs"
  from assms obtain m1 allocs1 m2 where
      ch: "pickerChoose E p = Inr (activeRMs, passiveRMs)"
    and s1: "setAllocations (connections s) 0 m (replicate ?n ?z) True activeRMs
               = Some (m1, allocs1)"
    and s2: "setAllocations (connections s) (length activeRMs) m1 allocs1 False passiveRMs
               = Some (m2, txn_allocations t)"
    by (auto simp: clientToServerTxn_def Let_def split: option.splits sum.splits prod.splits)
  note n1 = setAllocations_nth [OF s1]
  note n2 = setAllocations_nth [OF s2]
  have len: "length (txn_allocations t) = ?n" using n1 n2 by simp
  have act: "\<forall>j<length activeRMs.
           allocated (connections s) m True (activeRMs ! j) (txn_allocations t ! j)"
    using n1 n2 by simp
  have m1: "\<forall>x. map_option sort (m1 x) = map_option sort (m x)" using n1 by blast
  have pas: "\<forall>j<length passiveRMs.
           allocated (connections s) m False (passiveRMs ! j)
             (txn_allocations t ! (length activeRMs + j))"
    using n2 allocated_sorted_map [OF _ m1] by blast
  have each: "\<exists>l. m (rmId al) = Some l \<and> actionIndices al = map word_of_int (sort l)
             \<and> ((\<forall>v\<in>set l. 0 \<le> v \<and> v < 65536) \<longrightarrow>
                   sorted (map unat (actionIndices al))
                   \<and> map unat (actionIndices al) = map nat (sort l))"
    if "al \<in> set (txn_allocations t)" for al
  proof -
    from that len obtain j where j: "j < ?n" "al = txn_allocations t ! j"
      by (auto simp: in_set_conv_nth)
    have "\<exists>act r. allocated (connections s) m act r al"
    proof (cases "j < length activeRMs")
      case True
      then show ?thesis using act j by blast
    next
      case False
      then have "j - length activeRMs < length passiveRMs"
        "length activeRMs + (j - length activeRMs) = j" using j by simp_all
      then show ?thesis using pas j by metis
    qed
    then obtain l where "m (rmId al) = Some l" "actionIndices al = map word_of_int (sort l)"
      by (auto simp: allocated_def)
    then show ?thesis using sorted_written [of l] by auto
  qed
  from len act pas each show ?thesis by blast
qed

theorem clientToServerTxn_allocations_witness:
  "map_option (map_sum id (txn_allocations \<circ> fst) \<circ> snd)
     (clientToServerTxn example_collaborators
        (example_submitter\<lparr>sts_topology := example_topology\<rparr>)
        \<lparr>ctxn_id = [7], ctxn_retry = False, ctxn_actions = []\<rparr>)
   = Some (Inr [\<lparr>rmId = 1, actionIndices = [0, 1, 2], active = 5\<rparr>,
                \<lparr>rmId = 2, actionIndices = [0], active = 0\<rparr>])"
proof -
  let ?s = "example_submitter\<lparr>sts_topology := example_topology\<rparr>"
  let ?c = "\<lparr>ctxn_id = [7], ctxn_retry = False, ctxn_actions = []\<rparr>"
  let ?m = "[1 \<mapsto> [2, 0, 1], 2 \<mapsto> [0 :: int]] :: rmid \<rightharpoonup> int list"
  let ?t = "\<lparr>txn_id = [7], txn_retry = False, txn_submitter = 9, txn_submitterBootCount = 1,
      txn_fInc = 2, txn_topologyVersion = 1, txn_actions = [],
      txn_allocations = [\<lparr>rmId = 1, actionIndices = [0, 1, 2], active = 5\<rparr>,
                         \<lparr>rmId = 2, actionIndices = [0], active = 0\<rparr>]\<rparr>"
  have r: "clientToServerTxn example_collaborators ?s ?c
      = Some (?s\<lparr>hashCache := [?c]\<rparr>, Inr (?t, [1], [2]))"
    by (simp add: clientToServerTxn_def example_collaborators_def example_submitter_def
        example_topology_def Let_def)
  have tr: "translateActions example_collaborators (hashCache ?s) (sts_topology ?s) (sts_rmId ?s)
             (newCombinationPicker example_collaborators (unat (FInc (sts_topology ?s)))
                (disabledHashCodes ?s)) ?c
           = Some ([?c], Inr ([], ?m, ()))"
    by (simp add: example_collaborators_def example_submitter_def)
  from clientToServerTxn_allocations [OF r tr]
  have "length (txn_allocations ?t) = 2" by simp
  then show ?thesis using r by simp
qed

text \<open>
  C7 as stated fails for a transaction of more than 65536 actions: a replica responsible
  for the actions 1 and 65536 gets the written list 1, 0.
\<close>

theorem setAllocations_counterexample:
  "map_option (map (map unat \<circ> actionIndices) \<circ> snd)
     (setAllocations [3 \<mapsto> 7] 0 [3 \<mapsto> [1, 65536]]
        [\<lparr>rmId = 0, actionIndices = [], active = 0\<rparr>] True [3]) = Some [[1, 0]]
   \<and> \<not> sorted [1, 0 :: nat]"
  by simp


section \<open>Buffered submissions\<close>






section \<open>Delivery of the outcome\<close>

text \<open>
  C8. \<open>SubmitTransaction\<close> registers the repeating sender, a shutdown hook and the
  consumer of the transaction. Outcomes delivered while the accumulator has not decided
  have no effect. At the delivery at which the accumulator reports the outcome agreed by
  \<open>FInc\<close> acceptors, the submitter removes the hook and the consumer, deregisters that
  sender, sends TxnSubmissionComplete to the acceptors of the transaction and calls the
  continuation with the outcome. Every outcome delivered afterwards for the transaction
  is answered with a TxnSubmissionComplete to its sender and nothing else, so the
  continuation is called exactly once.
\<close>

theorem outcome_delivered_once:
  assumes "undecided E (newOutcomeAccumulator E (unat (txn_fInc t)) (getAcceptorsFromTxn E t)) pre
             = Some acc"
      and "ballotOutcomeReceived E acc sender oc = (acc', Some decided)"
  shows "sts_effects (SubmitTransaction E s t activeRMs k delay)
           = sts_effects s @
               [if delay = 0 then AddRepeatingSender (TxnSubmission t) activeRMs
                else AddRepeatingSenderAfter delay (TxnSubmission t) activeRMs]
     \<and> onShutdown (SubmitTransaction E s t activeRMs k delay) (nextPtr s) \<noteq> None
     \<and> outcomeConsumers (SubmitTransaction E s t activeRMs k delay) (txn_id t) \<noteq> None
     \<and> sts_effects (deliverAll E (SubmitTransaction E s t activeRMs k delay) (txn_id t) pre)
           = sts_effects (SubmitTransaction E s t activeRMs k delay)
     \<and> sts_effects (deliverAll E (SubmitTransaction E s t activeRMs k delay) (txn_id t)
                      (pre @ (sender, oc) # post))
           = sts_effects (SubmitTransaction E s t activeRMs k delay) @
               [RemoveSenderAsync (TxnSubmission t) activeRMs,
                NewOneShotSender (TxnSubmissionComplete (txn_id t)) (getAcceptorsFromTxn E t),
                Continuation k (txn_id t) (Some decided)] @
               map (\<lambda>d. NewOneShotSender (TxnSubmissionComplete (txn_id t)) [fst d]) post
     \<and> outcomeConsumers (deliverAll E (SubmitTransaction E s t activeRMs k delay) (txn_id t)
                            (pre @ (sender, oc) # post)) (txn_id t) = None
     \<and> onShutdown (deliverAll E (SubmitTransaction E s t activeRMs k delay) (txn_id t)
                      (pre @ (sender, oc) # post)) (nextPtr s) = None"
proof -
  let ?s1 = "SubmitTransaction E s t activeRMs k delay"
  let ?tid = "txn_id t"
  let ?sf = "\<lparr>sf_txnId = ?tid, sf_senderMsg = TxnSubmission t, sf_activeRMs = activeRMs,
              sf_acceptors = getAcceptorsFromTxn E t, sf_retry = txn_retry t,
              sf_continuation = k\<rparr>"
  let ?c = "\<lparr>c_outcomeAccumulator =
               newOutcomeAccumulator E (unat (txn_fInc t)) (getAcceptorsFromTxn E t),
             c_shutdownFunPtr = nextPtr s, c_shutdownFun = ?sf, c_continuation = k\<rparr>"
  have reg: "outcomeConsumers ?s1 ?tid = Some ?c" "onShutdown ?s1 (nextPtr s) = Some ?sf"
    "sts_effects ?s1 = sts_effects s @
               [if delay = 0 then AddRepeatingSender (TxnSubmission t) activeRMs
                else AddRepeatingSenderAfter delay (TxnSubmission t) activeRMs]"
    by (simp_all add: SubmitTransaction_def Let_def sts_emit_def)
  have u: "undecided E (c_outcomeAccumulator ?c) pre = Some acc" using assms(1) by simp
  note quiet = undecided_effects [OF u reg(1)]
  let ?c2 = "?c\<lparr>c_outcomeAccumulator := acc\<rparr>"
  let ?s2 = "?s1\<lparr>outcomeConsumers := (outcomeConsumers ?s1)(?tid \<mapsto> ?c2)\<rparr>"
  have split: "deliverAll E ?s1 ?tid (pre @ (sender, oc) # post)
      = deliverAll E (SubmissionOutcomeReceived E ?s2 sender ?tid oc) ?tid post"
    using deliver_undecided [OF u reg(1), of "(sender, oc) # post"] by simp
  have c2: "outcomeConsumers ?s2 ?tid = Some ?c2" "sf_txnId (c_shutdownFun ?c2) = ?tid"
    "ballotOutcomeReceived E (c_outcomeAccumulator ?c2) sender oc = (acc', Some decided)"
    using assms(2) by simp_all
  note dec = deliver_decided [OF c2]
  let ?s3 = "SubmissionOutcomeReceived E ?s2 sender ?tid oc"
  have gone: "outcomeConsumers ?s3 ?tid = None" using dec by blast
  note post = deliver_unknown [OF gone, of E post]
  have e3: "sts_effects ?s3 = sts_effects ?s1 @
               [RemoveSenderAsync (TxnSubmission t) activeRMs,
                NewOneShotSender (TxnSubmissionComplete ?tid) (getAcceptorsFromTxn E t),
                Continuation k ?tid (Some decided)]"
    using dec by simp
  have h3: "onShutdown ?s3 (nextPtr s) = None" using dec by simp
  have r1: "sts_effects (deliverAll E ?s1 ?tid (pre @ (sender, oc) # post))
           = sts_effects ?s1 @
               [RemoveSenderAsync (TxnSubmission t) activeRMs,
                NewOneShotSender (TxnSubmissionComplete ?tid) (getAcceptorsFromTxn E t),
                Continuation k ?tid (Some decided)] @
               map (\<lambda>d. NewOneShotSender (TxnSubmissionComplete ?tid) [fst d]) post"
    unfolding split using post e3 by simp
  have r2: "outcomeConsumers (deliverAll E ?s1 ?tid (pre @ (sender, oc) # post)) ?tid = None"
    unfolding split using post gone by simp
  have r3: "onShutdown (deliverAll E ?s1 ?tid (pre @ (sender, oc) # post)) (nextPtr s) = None"
    unfolding split using post h3 by simp
  from reg quiet r1 r2 r3 show ?thesis by simp
qed


theorem outcome_delivered_once_witness:
  "sts_effects
     (deliverAll example_collaborators
        (SubmitTransaction example_collaborators example_submitter example_txn [1, 2] 10 0)
        [1] [(1, Commit []), (2, Abort Resubmit), (2, Commit []), (3, Commit [])])
   = [AddRepeatingSender (TxnSubmission example_txn) [1, 2],
      RemoveSenderAsync (TxnSubmission example_txn) [1, 2],
      NewOneShotSender (TxnSubmissionComplete [1]) [1, 2, 3],
      Continuation 10 [1] (Some (Commit [])),
      NewOneShotSender (TxnSubmissionComplete [1]) [3]]"
proof -
  let ?E = example_collaborators
  let ?acc = "\<lparr>oa_fInc = 2, oa_acceptors = [1, 2, 3],
               oa_outcomes = [1 \<mapsto> Commit [], 2 \<mapsto> Abort Resubmit]\<rparr>"
  have f: "unat (txn_fInc example_txn) = 2" "txn_id example_txn = [1]"
    "getAcceptorsFromTxn ?E example_txn = [1, 2, 3]"
    by (simp_all add: example_txn_def example_collaborators_def)
  have u: "undecided ?E (newOutcomeAccumulator ?E (unat (txn_fInc example_txn))
              (getAcceptorsFromTxn ?E example_txn)) [(1, Commit []), (2, Abort Resubmit)]
            = Some ?acc"
    unfolding f
    by (simp add: example_collaborators_def NewOutcomeAccumulator_def
        BallotOutcomeReceived_def Let_def)
  have d: "ballotOutcomeReceived ?E ?acc 2 (Commit [])
      = (?acc\<lparr>oa_outcomes := [1 \<mapsto> Commit [], 2 \<mapsto> Commit []]\<rparr>, Some (Commit []))"
    by (simp add: example_collaborators_def BallotOutcomeReceived_def Let_def)
  note th = outcome_delivered_once [OF u d, of example_submitter "[1, 2]" 10 0 "[(3, Commit [])]"]
  have e: "sts_effects example_submitter = []" by (simp add: example_submitter_def)
  from th [THEN conjunct1] th [THEN conjunct2, THEN conjunct2, THEN conjunct2, THEN conjunct2,
      THEN conjunct1]
  show ?thesis unfolding f by (simp add: e)
qed

end
